theory Spec2Isabelle
  imports Main
begin

section \<open>Hunt documents and the failed-session list (viewer.js)\<close>

text \<open>
  A hunt document is a free-form JavaScript object; the record below holds the fields
  that the hunt engine reads and writes. A field that may be \<^verbatim>\<open>undefined\<close> is an
  option. Numbers are JavaScript numbers holding counts and epoch seconds, modelled
  as integers.
\<close>

datatype hunt_status = Queued | Running | Paused | Finished

text \<open>The argument object of \<^verbatim>\<open>pauseHuntJobWithError\<close>: \<^verbatim>\<open>{ value, unrunnable }\<close>.\<close>

record error_arg =
  error_value :: string
  error_unrunnable :: bool

text \<open>The same object once stored in \<^verbatim>\<open>hunt.errors\<close>: \<^verbatim>\<open>{ value, time, node }\<close>.\<close>

record hunt_error =
  evalue :: string
  etime :: int
  enode :: "string option"

record hunt =
  status :: hunt_status
  lastUpdated :: int
  totalSessions :: int
  searchedSessions :: int
  matchedSessions :: int
  lastPacketTime :: "int option"
  failedSessionIds :: "string list option"
  errors :: "hunt_error list option"
  hunt_unrunnable :: bool

text \<open>
  \<^verbatim>\<open>pauseHuntJobWithError (huntId, hunt, error, node)\<close>, the mutation of the hunt object
  that is then handed to \<^verbatim>\<open>Db.setHunt\<close>. \<open>now\<close> is \<^verbatim>\<open>Math.floor(Date.now() / 1000)\<close>.
  Where a caller builds the error text from the hunt's name and id or from a session
  id, which the records here do not hold, the text is given without them.
\<close>

definition pauseHuntJobWithError :: "int \<Rightarrow> hunt \<Rightarrow> error_arg \<Rightarrow> string option \<Rightarrow> hunt" where
  "pauseHuntJobWithError now h error node =
     (let e = \<lparr>evalue = error_value error, etime = now, enode = node\<rparr>;
          h1 = h\<lparr>status := Paused\<rparr>;
          h2 = (if error_unrunnable error then h1\<lparr>hunt_unrunnable := True\<rparr> else h1)
      in h2\<lparr>errors := (case errors h2 of None \<Rightarrow> Some [e] | Some es \<Rightarrow> Some (es @ [e]))\<rparr>)"

definition tooManyUnreachable :: error_arg where
  "tooManyUnreachable =
     \<lparr>error_value = ''Error hunting: Too many sessions are unreachable. Please contact your administrator.'',
      error_unrunnable = False\<rparr>"

text \<open>
  What \<^verbatim>\<open>continueHuntSkipSession\<close> does next: it either returned from the pause, or goes
  on to \<^verbatim>\<open>updateHuntStats\<close>.
\<close>

datatype skip_next = PausedWithError | ToUpdateHuntStats

text \<open>
  \<^verbatim>\<open>continueHuntSkipSession (hunt, huntId, session, sessionId, searchedSessions, cb)\<close>,
  up to its tail call. An empty array is truthy in JavaScript, so the first branch is
  taken only when the field is absent. \<^verbatim>\<open>indexOf (sessionId) < 0\<close> is non-membership.
\<close>

definition continueHuntSkipSession :: "int \<Rightarrow> hunt \<Rightarrow> string \<Rightarrow> hunt \<times> skip_next" where
  "continueHuntSkipSession now h sessionId =
     (case failedSessionIds h of
        None \<Rightarrow> (h\<lparr>failedSessionIds := Some [sessionId]\<rparr>, ToUpdateHuntStats)
      | Some ids \<Rightarrow>
          if length ids > 10000
          then (pauseHuntJobWithError now h tooManyUnreachable None, PausedWithError)
          else if sessionId \<notin> set ids
          then (h\<lparr>failedSessionIds := Some (ids @ [sessionId])\<rparr>, ToUpdateHuntStats)
          else (h, ToUpdateHuntStats))"

text \<open>
  The places that reach \<^verbatim>\<open>continueHuntSkipSession\<close>: the remote branch of
  \<^verbatim>\<open>runHuntJob\<close> when \<^verbatim>\<open>makeRequest\<close> calls back with an error, and in
  \<^verbatim>\<open>huntFailedSessions\<close> when \<^verbatim>\<open>Db.getSession\<close> or \<^verbatim>\<open>makeRequest\<close> calls back with
  an error (or the peer answers with \<^verbatim>\<open>json.error\<close>). The answer of a peer is a
  transport error, a JSON object with \<^verbatim>\<open>error\<close>, or one with \<^verbatim>\<open>matched\<close>.
\<close>

datatype peer_reply = TransportError | ReplyError string | ReplyMatched bool

text \<open>
  The remote branch of the iterator in \<^verbatim>\<open>runHuntJob\<close>, after \<^verbatim>\<open>makeRequest\<close> has
  called back.
\<close>

definition runHuntJob_remote :: "int \<Rightarrow> hunt \<Rightarrow> string \<Rightarrow> string \<Rightarrow> peer_reply \<Rightarrow> hunt \<times> skip_next" where
  "runHuntJob_remote now h node sessionId reply =
     (case reply of
        TransportError \<Rightarrow> continueHuntSkipSession now h sessionId
      | ReplyError e \<Rightarrow>
          (pauseHuntJobWithError now h
             \<lparr>error_value = ''Error hunting on remote viewer: '' @ e, error_unrunnable = False\<rparr> (Some node),
           PausedWithError)
      | ReplyMatched m \<Rightarrow>
          ((if m then h\<lparr>matchedSessions := matchedSessions h + 1\<rparr> else h), ToUpdateHuntStats))"

text \<open>
  \<^verbatim>\<open>splice (indexOf (sessionId), 1)\<close>: removes the first occurrence; when the id is
  absent, \<^verbatim>\<open>indexOf\<close> is \<open>-1\<close> and \<^verbatim>\<open>splice (-1, 1)\<close> removes the last element.
\<close>

definition splice_indexOf :: "string \<Rightarrow> string list \<Rightarrow> string list" where
  "splice_indexOf sessionId ids =
     (if sessionId \<in> set ids then remove1 sessionId ids else butlast ids)"

text \<open>
  The iterator of \<^verbatim>\<open>huntFailedSessions\<close> for one session id: \<open>doc\<close> is False when
  \<^verbatim>\<open>Db.getSession\<close> calls back with an error, and \<open>reply\<close> is the peer's answer.
\<close>

definition huntFailedSessions_iter :: "int \<Rightarrow> hunt \<Rightarrow> string \<Rightarrow> bool \<Rightarrow> peer_reply \<Rightarrow> hunt \<times> skip_next" where
  "huntFailedSessions_iter now h sessionId doc reply =
     (if \<not> doc then continueHuntSkipSession now h sessionId
      else case reply of
        TransportError \<Rightarrow> continueHuntSkipSession now h sessionId
      | ReplyError e \<Rightarrow> continueHuntSkipSession now h sessionId
      | ReplyMatched m \<Rightarrow>
          (let h1 = h\<lparr>failedSessionIds := map_option (splice_indexOf sessionId) (failedSessionIds h)\<rparr>
           in ((if m then h1\<lparr>matchedSessions := matchedSessions h1 + 1\<rparr> else h1), ToUpdateHuntStats)))"

text \<open>A run of skipped sessions, one call of \<^verbatim>\<open>continueHuntSkipSession\<close> after the other.\<close>

fun skipSessions :: "int \<Rightarrow> hunt \<Rightarrow> string list \<Rightarrow> hunt" where
  "skipSessions now h [] = h"
| "skipSessions now h (sid # sids) = skipSessions now (fst (continueHuntSkipSession now h sid)) sids"

definition distinct_ids :: "hunt \<Rightarrow> bool" where
  "distinct_ids h = (case failedSessionIds h of None \<Rightarrow> True | Some ids \<Rightarrow> distinct ids)"

text \<open>The two lists of a hunt read with an absent field as the empty list.\<close>

definition failed_ids :: "hunt \<Rightarrow> string list" where
  "failed_ids h = (case failedSessionIds h of None \<Rightarrow> [] | Some ids \<Rightarrow> ids)"

definition error_list :: "hunt \<Rightarrow> hunt_error list" where
  "error_list h = (case errors h of None \<Rightarrow> [] | Some es \<Rightarrow> es)"

section \<open>Hunt checkpoints: updateHuntStats and runHuntJob (viewer.js)\<close>

text \<open>
  The fields of a session hit that the scan reads: \<^verbatim>\<open>lastPacket\<close>, \<^verbatim>\<open>fileId\<close>
  (possibly undefined) and \<^verbatim>\<open>node\<close>.
\<close>

record session =
  lastPacket :: int
  fileId :: "int list option"
  node :: string

text \<open>
  \<^verbatim>\<open>updateHuntStats\<close> runs in two parts. Its body reads the clock, tests the two-second
  throttle and issues \<^verbatim>\<open>Db.get\<close>; the rest runs later, in the callback of \<^verbatim>\<open>Db.get\<close>.
  The callback is a closure over the parameters \<^verbatim>\<open>searchedSessions\<close> and
  \<^verbatim>\<open>session\<close> and over the local \<^verbatim>\<open>now\<close>: the values they had at the call. A
  checkpoint holds these captured values while the request is in flight.
\<close>

record checkpoint =
  cp_now :: int
  cp_searchedSessions :: "int option"
  cp_lastPacketTime :: int

text \<open>What \<^verbatim>\<open>Db.get ('hunts', 'hunt', huntId, ...)\<close> calls back with.\<close>

datatype db_get = NotFound | GetError string | Found hunt_status

text \<open>Who handed a hunt document to \<^verbatim>\<open>Db.setHunt\<close>.\<close>

datatype writer = ByUpdateHuntStats | ByEndOfScan | ByPause

text \<open>
  The state of one \<^verbatim>\<open>runHuntJob\<close>: the hunt object shared by all callbacks, the local
  variable \<^verbatim>\<open>searchedSessions\<close> (undefined until the first page), the \<^verbatim>\<open>Db.get\<close>
  requests in flight in the order they were issued, and the documents handed to
  \<^verbatim>\<open>Db.setHunt\<close> so far, oldest first.
\<close>

record scan =
  sc_hunt :: hunt
  sc_searchedSessions :: "int option"
  sc_pending :: "checkpoint list"
  sc_written :: "(writer \<times> hunt) list"

text \<open>The body of \<^verbatim>\<open>updateHuntStats\<close>, called at second \<open>now\<close>.\<close>

definition updateHuntStats :: "scan \<Rightarrow> session \<Rightarrow> int option \<Rightarrow> int \<Rightarrow> scan" where
  "updateHuntStats sc sess searched now =
     (if now - lastUpdated (sc_hunt sc) \<ge> 2
      then sc\<lparr>sc_pending := sc_pending sc @
                [\<lparr>cp_now = now, cp_searchedSessions = searched, cp_lastPacketTime = lastPacket sess\<rparr>]\<rparr>
      else sc)"

text \<open>
  \<^verbatim>\<open>searchedSessions || hunt.searchedSessions\<close>: undefined and 0 are falsy.
\<close>

definition js_or :: "int option \<Rightarrow> int \<Rightarrow> int" where
  "js_or a b = (case a of None \<Rightarrow> b | Some v \<Rightarrow> if v = 0 then b else v)"

text \<open>
  The callback of \<^verbatim>\<open>Db.get\<close> inside \<^verbatim>\<open>updateHuntStats\<close>, run at second \<open>now\<close> for the
  checkpoint \<open>cp\<close>. The not-found test comes first, as in the source.
\<close>

definition updateHuntStats_cb :: "scan \<Rightarrow> checkpoint \<Rightarrow> db_get \<Rightarrow> int \<Rightarrow> scan" where
  "updateHuntStats_cb sc cp reply now =
     (case reply of
        NotFound \<Rightarrow> sc
      | GetError e \<Rightarrow>
          (let h = pauseHuntJobWithError now (sc_hunt sc)
                     \<lparr>error_value = ''Error finding hunt: '' @ e, error_unrunnable = False\<rparr> None
           in sc\<lparr>sc_hunt := h, sc_written := sc_written sc @ [(ByPause, h)]\<rparr>)
      | Found st \<Rightarrow>
          (let h = (sc_hunt sc)\<lparr>status := st,
                                 lastUpdated := cp_now cp,
                                 searchedSessions := js_or (cp_searchedSessions cp) (searchedSessions (sc_hunt sc)),
                                 lastPacketTime := Some (cp_lastPacketTime cp)\<rparr>
           in sc\<lparr>sc_hunt := h, sc_written := sc_written sc @ [(ByUpdateHuntStats, h)]\<rparr>))"

text \<open>
  What happens during a scan, one event per callback that the event loop runs. Each
  callback runs to completion before the next one starts; their order is decided by
  the file system, the peers and Elasticsearch. \<^verbatim>\<open>async.forEachLimit (hits, 3, ...)\<close>
  keeps up to three iterators in flight.
\<close>

datatype event =
    Page int
  | SearchFailed string int
  | Iterator session int
  | SessionHuntDone session "string option" bool int
  | MakeRequestDone session string peer_reply int
  | DbGetDone nat db_get int
  | ScanDone

text \<open>
  \<^verbatim>\<open>getMoreUntilDone\<close> on entry. With an error it pauses the hunt (\<open>searchFailed\<close>).
  Otherwise (\<open>getMoreUntilDone\<close>, with \<^verbatim>\<open>result.hits.total\<close>) the first page sets the local
  counter and \<^verbatim>\<open>hunt.totalSessions\<close>; \<^verbatim>\<open>options.searchingFailedSessions\<close> is not set on
  this path, \<^verbatim>\<open>runHuntJob\<close> sets it only before it returns into
  \<^verbatim>\<open>huntFailedSessions\<close>.
\<close>

definition searchFailed :: "scan \<Rightarrow> string \<Rightarrow> int \<Rightarrow> scan" where
  "searchFailed sc err now =
     (let h = pauseHuntJobWithError now (sc_hunt sc)
                \<lparr>error_value = ''Hunt error searching sessions: '' @ err, error_unrunnable = False\<rparr> None
      in sc\<lparr>sc_hunt := h, sc_written := sc_written sc @ [(ByPause, h)]\<rparr>)"

definition getMoreUntilDone :: "scan \<Rightarrow> int \<Rightarrow> scan" where
  "getMoreUntilDone sc hitsTotal =
     (case sc_searchedSessions sc of
        Some s \<Rightarrow> sc
      | None \<Rightarrow>
          (let s = searchedSessions (sc_hunt sc);
               h = (if totalSessions (sc_hunt sc) \<noteq> hitsTotal + s
                    then (sc_hunt sc)\<lparr>totalSessions := hitsTotal + s\<rparr> else sc_hunt sc)
           in sc\<lparr>sc_searchedSessions := Some s, sc_hunt := h\<rparr>))"

text \<open>
  The iterator of \<^verbatim>\<open>runHuntJob\<close> up to its first asynchronous call:
  \<^verbatim>\<open>searchedSessions++\<close>, and a hit without files goes to \<^verbatim>\<open>updateHuntStats\<close> at once.
\<close>

definition iterator :: "scan \<Rightarrow> session \<Rightarrow> int \<Rightarrow> scan" where
  "iterator sc sess now =
     (let sc1 = sc\<lparr>sc_searchedSessions := map_option (\<lambda>s. s + 1) (sc_searchedSessions sc)\<rparr>
      in if fileId sess = None \<or> fileId sess = Some []
         then updateHuntStats sc1 sess (sc_searchedSessions sc1) now
         else sc1)"

text \<open>The callback of \<^verbatim>\<open>sessionHunt\<close> in the local branch.\<close>

definition sessionHunt_cb :: "scan \<Rightarrow> session \<Rightarrow> string option \<Rightarrow> bool \<Rightarrow> int \<Rightarrow> scan" where
  "sessionHunt_cb sc sess err matched now =
     (case err of
        Some e \<Rightarrow>
          (let h = pauseHuntJobWithError now (sc_hunt sc)
                     \<lparr>error_value = ''Hunt error searching session: '' @ e, error_unrunnable = False\<rparr>
                     (Some (node sess))
           in sc\<lparr>sc_hunt := h, sc_written := sc_written sc @ [(ByPause, h)]\<rparr>)
      | None \<Rightarrow>
          (let h = (if matched then (sc_hunt sc)\<lparr>matchedSessions := matchedSessions (sc_hunt sc) + 1\<rparr>
                    else sc_hunt sc)
           in updateHuntStats (sc\<lparr>sc_hunt := h\<rparr>) sess (sc_searchedSessions sc) now))"

text \<open>The callback of \<^verbatim>\<open>makeRequest\<close> in the remote branch.\<close>

definition makeRequest_cb :: "scan \<Rightarrow> session \<Rightarrow> string \<Rightarrow> peer_reply \<Rightarrow> int \<Rightarrow> scan" where
  "makeRequest_cb sc sess sessionId reply now =
     (case runHuntJob_remote now (sc_hunt sc) (node sess) sessionId reply of
        (h, PausedWithError) \<Rightarrow> sc\<lparr>sc_hunt := h, sc_written := sc_written sc @ [(ByPause, h)]\<rparr>
      | (h, ToUpdateHuntStats) \<Rightarrow> updateHuntStats (sc\<lparr>sc_hunt := h\<rparr>) sess (sc_searchedSessions sc) now)"

text \<open>
  The final callback of \<^verbatim>\<open>async.forEachLimit\<close> once a page came back empty: the
  end-of-scan write. The hunt is finished unless failed sessions are left.
\<close>

definition endOfScan :: "scan \<Rightarrow> scan" where
  "endOfScan sc =
     (let h1 = (sc_hunt sc)\<lparr>searchedSessions := totalSessions (sc_hunt sc)\<rparr>;
          h2 = (case failedSessionIds h1 of
                  Some (x # xs) \<Rightarrow> h1
                | _ \<Rightarrow> h1\<lparr>status := Finished\<rparr>)
      in sc\<lparr>sc_hunt := h2, sc_written := sc_written sc @ [(ByEndOfScan, h2)]\<rparr>)"

definition step :: "scan \<Rightarrow> event \<Rightarrow> scan" where
  "step sc ev =
     (case ev of
        Page hitsTotal \<Rightarrow> getMoreUntilDone sc hitsTotal
      | SearchFailed err now \<Rightarrow> searchFailed sc err now
      | Iterator sess now \<Rightarrow> iterator sc sess now
      | SessionHuntDone sess err matched now \<Rightarrow> sessionHunt_cb sc sess err matched now
      | MakeRequestDone sess sessionId reply now \<Rightarrow> makeRequest_cb sc sess sessionId reply now
      | DbGetDone i reply now \<Rightarrow>
          (if i < length (sc_pending sc)
           then updateHuntStats_cb
                  (sc\<lparr>sc_pending := take i (sc_pending sc) @ drop (Suc i) (sc_pending sc)\<rparr>)
                  (sc_pending sc ! i) reply now
           else sc)
      | ScanDone \<Rightarrow> endOfScan sc)"

definition run :: "scan \<Rightarrow> event list \<Rightarrow> scan" where
  "run sc evs = foldl step sc evs"

text \<open>A job starts with the hunt as loaded, no counter, nothing in flight, nothing written.\<close>

definition runHuntJob :: "hunt \<Rightarrow> event list \<Rightarrow> scan" where
  "runHuntJob h evs =
     run \<lparr>sc_hunt = h, sc_searchedSessions = None, sc_pending = [], sc_written = []\<rparr> evs"

text \<open>The counters of the documents written, oldest first: (searched, total, matched).\<close>

definition written_counters :: "scan \<Rightarrow> (int \<times> int \<times> int) list" where
  "written_counters sc =
     map (\<lambda>(w, h). (searchedSessions h, totalSessions h, matchedSessions h)) (sc_written sc)"

text \<open>
  \<^verbatim>\<open>sessionHunt (sessionId, options, cb)\<close>. The packets come from
  \<^verbatim>\<open>processSessionIdAndDecode\<close> or \<^verbatim>\<open>processSessionId\<close>, which call back with an
  error when the session cannot be read. A packet is kept with its buffer, with its
  \<^verbatim>\<open>data\<close> (the decoded data of a reassembled packet, \<^verbatim>\<open>buffer.slice (16)\<close> of a raw
  one) and with whether its key is the key of the session. \<^verbatim>\<open>packetSearch\<close> with the
  options of the hunt is the parameter \<open>found\<close>. The result is the arguments of
  \<^verbatim>\<open>cb\<close>, which is not called for another \<^verbatim>\<open>options.type\<close>. Both branches turn an
  error into \<^verbatim>\<open>cb (null, false)\<close>.
\<close>

record packet =
  pkt_buffer :: string
  pkt_data :: string
  pkt_isSrc :: bool

datatype processed = ProcessError string | Processed "packet list"

record hunt_options =
  opt_src :: bool
  opt_dst :: bool
  opt_type :: string

fun every_second :: "'a list \<Rightarrow> 'a list" where
  "every_second [] = []"
| "every_second [x] = [x]"
| "every_second (x # y # zs) = x # every_second zs"

definition sessionHunt ::
  "hunt_options \<Rightarrow> (string \<Rightarrow> bool) \<Rightarrow> processed \<Rightarrow> (string option \<times> bool) option" where
  "sessionHunt options found result =
     (if opt_type options = ''reassembled''
      then (case result of
              ProcessError err \<Rightarrow> Some (None, False)
            | Processed packets \<Rightarrow>
                Some (None,
                  list_ex (\<lambda>p. found (pkt_data p))
                    (if opt_src options \<and> \<not> opt_dst options then every_second packets
                     else if opt_dst options \<and> \<not> opt_src options then every_second (drop 1 packets)
                     else packets)))
      else if opt_type options = ''raw''
      then (case result of
              ProcessError err \<Rightarrow> Some (None, False)
            | Processed packets \<Rightarrow>
                Some (None,
                  if opt_src options = opt_dst options
                  then list_ex (\<lambda>p. found (pkt_buffer p)) packets
                  else list_ex (\<lambda>p. ((opt_src options \<and> pkt_isSrc p) \<or>
                                      (opt_dst options \<and> \<not> pkt_isSrc p)) \<and> found (pkt_data p))
                         packets))
      else None)"

text \<open>
  The local branch of the iterator in \<^verbatim>\<open>runHuntJob\<close>: \<^verbatim>\<open>sessionHunt\<close> and its
  callback.
\<close>

definition localHit ::
  "scan \<Rightarrow> session \<Rightarrow> hunt_options \<Rightarrow> (string \<Rightarrow> bool) \<Rightarrow> processed \<Rightarrow> int \<Rightarrow> scan" where
  "localHit sc sess options found result now =
     (case sessionHunt options found result of
        None \<Rightarrow> sc
      | Some (err, matched) \<Rightarrow> sessionHunt_cb sc sess err matched now)"

text \<open>
  The endpoint \<^verbatim>\<open>/:nodeName/hunt/:huntId/remote/:sessionId\<close> on the peer, as the
  answer that the calling node parses. The two \<^verbatim>\<open>Db.get\<close> promises reject, resolve to
  an object with \<^verbatim>\<open>error\<close>, or resolve to the document. A rejection is answered with
  \<^verbatim>\<open>{ matched: false, error }\<close>; an object with \<^verbatim>\<open>error\<close> is answered with
  \<^verbatim>\<open>{ matched: false }\<close> first; otherwise the answer is that of \<^verbatim>\<open>sessionHunt\<close>, and
  without an answer the call of the peer ends in a transport error.
\<close>

datatype fetched = Rejected string | WithError | Document

definition huntRemote ::
  "fetched \<Rightarrow> fetched \<Rightarrow> hunt_options \<Rightarrow> (string \<Rightarrow> bool) \<Rightarrow> processed \<Rightarrow> peer_reply" where
  "huntRemote huntDoc sessionDoc options found result =
     (case (huntDoc, sessionDoc) of
        (Rejected err, _) \<Rightarrow> ReplyError err
      | (_, Rejected err) \<Rightarrow> ReplyError err
      | (WithError, _) \<Rightarrow> ReplyMatched False
      | (_, WithError) \<Rightarrow> ReplyMatched False
      | (Document, Document) \<Rightarrow>
          (case sessionHunt options found result of
             None \<Rightarrow> TransportError
           | Some (None, matched) \<Rightarrow> ReplyMatched matched
           | Some (Some err, matched) \<Rightarrow> ReplyError err))"

text \<open>
  \<^verbatim>\<open>POST /hunt\<close>: the hunt is the object of the request body with some fields
  overwritten; the other fields, \<^verbatim>\<open>failedSessionIds\<close> among them, are stored as the
  client sent them. \<open>None\<close> is an answer with status 403. Of the checks, those on
  \<^verbatim>\<open>totalSessions\<close> are kept; the others concern fields that the record does not hold.
\<close>

definition createHunt :: "int \<Rightarrow> hunt \<Rightarrow> hunt option" where
  "createHunt limit body =
     (if totalSessions body = 0 then None
      else if totalSessions body > limit then None
      else Some (body\<lparr>status := Queued, matchedSessions := 0, searchedSessions := 0\<rparr>))"

text \<open>
  The rest of this section describes orders of callbacks and what the written documents
  should satisfy. A hit has files when \<^verbatim>\<open>fileId\<close> is defined and not empty.
\<close>

definition has_files :: "session \<Rightarrow> bool" where
  "has_files sess = (fileId sess \<noteq> None \<and> fileId sess \<noteq> Some [])"

text \<open>
  A serial order of callbacks: every \<^verbatim>\<open>Db.get\<close> that \<^verbatim>\<open>updateHuntStats\<close> issues is
  answered before any other callback of the scan runs. \<open>n\<close> counts the iterators that
  wait for their local or remote search, \<open>k\<close> the hits that the scroll has yet to
  deliver out of \<^verbatim>\<open>result.hits.total\<close>. A search completes only for an iterator that
  waits, the scroll delivers at most \<^verbatim>\<open>result.hits.total\<close> hits, and the scan is done
  when no iterator waits.
\<close>

fun serial :: "nat \<Rightarrow> int \<Rightarrow> scan \<Rightarrow> event list \<Rightarrow> bool" where
  "serial n k sc [] = True"
| "serial n k sc (Page t # evs) =
     (sc_pending sc = [] \<and> 0 \<le> t \<and>
      serial n (if sc_searchedSessions sc = None then t else k) (step sc (Page t)) evs)"
| "serial n k sc (SearchFailed e now # evs) =
     (sc_pending sc = [] \<and> serial n k (step sc (SearchFailed e now)) evs)"
| "serial n k sc (Iterator sess now # evs) =
     (sc_pending sc = [] \<and> sc_searchedSessions sc \<noteq> None \<and> 0 < k \<and>
      serial (if has_files sess then Suc n else n) (k - 1) (step sc (Iterator sess now)) evs)"
| "serial n k sc (SessionHuntDone sess err m now # evs) =
     (sc_pending sc = [] \<and> 0 < n \<and>
      serial (n - 1) k (step sc (SessionHuntDone sess err m now)) evs)"
| "serial n k sc (MakeRequestDone sess sid reply now # evs) =
     (sc_pending sc = [] \<and> 0 < n \<and>
      serial (n - 1) k (step sc (MakeRequestDone sess sid reply now)) evs)"
| "serial n k sc (DbGetDone i reply now # evs) =
     (i = 0 \<and> length (sc_pending sc) = 1 \<and> serial n k (step sc (DbGetDone i reply now)) evs)"
| "serial n k sc (ScanDone # evs) =
     (sc_pending sc = [] \<and> sc_searchedSessions sc \<noteq> None \<and> n = 0 \<and> evs = [])"

text \<open>
  The documents written by \<^verbatim>\<open>updateHuntStats\<close> and by the end of the scan, oldest
  first, and what is wanted of them: \<^verbatim>\<open>searchedSessions\<close> does not decrease, and in each
  document \<^verbatim>\<open>matchedSessions\<close> is at most \<^verbatim>\<open>searchedSessions\<close>, which is at most
  \<^verbatim>\<open>totalSessions\<close>.
\<close>

definition checkpoints :: "scan \<Rightarrow> hunt list" where
  "checkpoints sc = map snd (filter (\<lambda>(w, h). w \<noteq> ByPause) (sc_written sc))"

definition counters_ok :: "hunt list \<Rightarrow> bool" where
  "counters_ok hs =
     (sorted (map searchedSessions hs) \<and>
      list_all (\<lambda>h. matchedSessions h \<le> searchedSessions h \<and> searchedSessions h \<le> totalSessions h) hs)"

text \<open>
  The invariant of a serial scan after its first page, with \<open>s\<close> the local counter
  \<^verbatim>\<open>searchedSessions\<close>.
\<close>

definition scan_inv :: "nat \<Rightarrow> int \<Rightarrow> scan \<Rightarrow> bool" where
  "scan_inv n k sc =
     (\<exists>s. sc_searchedSessions sc = Some s \<and>
          0 \<le> matchedSessions (sc_hunt sc) \<and>
          matchedSessions (sc_hunt sc) + int n \<le> s \<and>
          s + k = totalSessions (sc_hunt sc) \<and> 0 \<le> k \<and>
          (sc_pending sc \<noteq> [] \<longrightarrow> 0 < s) \<and>
          (\<forall>cp \<in> set (sc_pending sc). cp_searchedSessions cp = Some s) \<and>
          counters_ok (checkpoints sc) \<and>
          (\<forall>h \<in> set (checkpoints sc). searchedSessions h \<le> s))"

section \<open>The authentication middleware and the permission gate (viewer.js)\<close>

text \<open>
  A response as far as the code decides it: the status when the code sets one, and the
  body. \<^verbatim>\<open>res.send (a, b)\<close> is kept with its arguments; \<^verbatim>\<open>JSON.stringify
  ({ success: s, text: t })\<close> is the body \<open>Json s t\<close>; \<^verbatim>\<open>res.end ()\<close> has no body.
\<close>

datatype body = Text "string list" | Json bool string

record response =
  res_status :: "nat option"
  res_body :: "body option"

definition res_end :: response where
  "res_end = \<lparr>res_status = None, res_body = None\<rparr>"

definition res_send :: "string list \<Rightarrow> response" where
  "res_send args = \<lparr>res_status = None, res_body = Some (Text args)\<rparr>"

text \<open>
  \<^verbatim>\<open>molochError (status, text)\<close>: \<^verbatim>\<open>this.status (status || 403)\<close>, then the JSON
  envelope. An undefined status and 0 are falsy.
\<close>

definition molochError :: "nat option \<Rightarrow> string \<Rightarrow> response" where
  "molochError st text =
     \<lparr>res_status = Some (case st of None \<Rightarrow> 403 | Some n \<Rightarrow> if n = 0 then 403 else n),
      res_body = Some (Json False text)\<rparr>"

text \<open>
  A user document: \<open>truthy\<close> lists the fields whose value is truthy (\<^verbatim>\<open>enabled\<close>,
  \<^verbatim>\<open>createEnabled\<close>, \<^verbatim>\<open>hideStats\<close>, ...), \<open>expression\<close> is the forced expression.
\<close>

record user =
  userId :: string
  truthy :: "string list"
  expression :: "string option"

definition has :: "user \<Rightarrow> string \<Rightarrow> bool" where
  "has u field = (field \<in> set (truthy u))"

text \<open>What \<^verbatim>\<open>Db.getUserCache\<close> and \<^verbatim>\<open>getUserCacheIncAnon\<close> call back with.\<close>

datatype user_lookup = LookupError string | LookupMissing | LookupFound user



text \<open>
  The token that \<^verbatim>\<open>Config.auth2obj\<close> decodes from the header \<^verbatim>\<open>x-moloch-auth\<close>.
  \<open>tok_date\<close> is the number that \<^verbatim>\<open>obj.date\<close> converts to in
  \<^verbatim>\<open>Date.now () - obj.date\<close>, and \<open>None\<close> when it is absent or not a number: then the
  difference is NaN. \<open>tok_path\<close> is \<open>None\<close> when \<^verbatim>\<open>obj.path\<close> is absent or not a
  string: then \<^verbatim>\<open>obj.path.replace\<close> throws.
\<close>

record token =
  tok_date :: "int option"
  tok_user :: string
  tok_path :: "string option"

text \<open>A request: its URL and its headers, \<^verbatim>\<open>req.headers[name]\<close> being \<open>header req name\<close>.\<close>

record request =
  url :: string
  headers :: "(string \<times> string) list"

definition header :: "request \<Rightarrow> string \<Rightarrow> string option" where
  "header req name = map_of (headers req) name"

text \<open>What the middleware reads of \<^verbatim>\<open>Config\<close> and \<^verbatim>\<open>internals\<close>.\<close>

record settings =
  basePath :: string
  hostName :: string
  userNameHeader :: "string option"
  requiredAuthHeader :: "string option"
  requiredAuthHeaderVal :: "string option"
  userAutoCreateTmpl :: "string option"

text \<open>
  What is not code of viewer.js and is met by the middleware while it handles one
  request: the clock \<^verbatim>\<open>Date.now ()\<close> in milliseconds; the decoder of the token
  (\<open>None\<close> when it throws); the user database as \<^verbatim>\<open>Db.getUserCache\<close> reads it, and as
  it reads it again after \<^verbatim>\<open>Db.setUser\<close>; whether the template of
  \<^verbatim>\<open>userAutoCreateTmpl\<close> gives a user object (it throws otherwise); the user id that
  passport-http takes from the \<^verbatim>\<open>Authorization\<close> header (\<open>None\<close> without credentials),
  and whether the digest of these credentials matches the password of the user.
\<close>

record world =
  now_ms :: int
  auth2obj :: "string \<Rightarrow> token option"
  getUserCache :: "string \<Rightarrow> user_lookup"
  getUserCacheCreated :: "string \<Rightarrow> user_lookup"
  tmplUser :: bool
  digestUserid :: "string option"
  digestMatches :: bool

text \<open>
  \<^verbatim>\<open>s.replace (pat, rep)\<close> with a string pattern: the first occurrence only, and an
  empty pattern matches at the start.
\<close>

definition startsWith :: "string \<Rightarrow> string \<Rightarrow> bool" where
  "startsWith s p = (take (length p) s = p)"

fun js_replace :: "string \<Rightarrow> string \<Rightarrow> string \<Rightarrow> string" where
  "js_replace pat rep [] = (if pat = [] then rep else [])"
| "js_replace pat rep (c # cs) =
     (if startsWith (c # cs) pat then rep @ drop (length pat) (c # cs)
      else c # js_replace pat rep cs)"

text \<open>
  \<^verbatim>\<open>/^\/(parliament|eshealth).json/\<close>: the dot is any one character except a line
  terminator.
\<close>

definition dot_json :: "string \<Rightarrow> bool" where
  "dot_json s = (case s of [] \<Rightarrow> False
                 | c # cs \<Rightarrow> c \<noteq> CHR 0x0A \<and> c \<noteq> CHR 0x0D \<and> startsWith cs ''json'')"

definition no_auth_url :: "string \<Rightarrow> bool" where
  "no_auth_url u =
     ((startsWith u ''/parliament'' \<and> dot_json (drop 11 u)) \<or>
      (startsWith u ''/eshealth'' \<and> dot_json (drop 9 u)))"

text \<open>\<^verbatim>\<open>/^\/receiveSession/\<close> or \<^verbatim>\<open>/^\/api\/sessions\/receive/\<close>.\<close>

definition receive_url :: "string \<Rightarrow> bool" where
  "receive_url u = (startsWith u ''/receiveSession'' \<or> startsWith u ''/api/sessions/receive'')"

text \<open>
  \<^verbatim>\<open>s.split (',')\<close> and \<^verbatim>\<open>s.trim ()\<close> on a header value (a Latin-1 string).
\<close>

fun split_on :: "char \<Rightarrow> string \<Rightarrow> string list" where
  "split_on c [] = [[]]"
| "split_on c (x # xs) =
     (if x = c then [] # split_on c xs
      else (case split_on c xs of [] \<Rightarrow> [[x]] | y # ys \<Rightarrow> (x # y) # ys))"

definition white :: "char \<Rightarrow> bool" where
  "white c = (c \<in> set [CHR 0x20, CHR 0x09, CHR 0x0A, CHR 0x0B, CHR 0x0C, CHR 0x0D, CHR 0xA0])"

definition trim :: "string \<Rightarrow> string" where
  "trim s = rev (dropWhile white (rev (dropWhile white s)))"

text \<open>
  What the middleware does with a request: it calls \<^verbatim>\<open>next ()\<close> (with \<^verbatim>\<open>req.user\<close> set
  or not); it answers; a call throws; or passport-http answers by itself with a digest
  challenge, an answer that viewer.js does not make.
\<close>

datatype outcome = Next "user option" | Respond response | Throws | PassportChallenge

text \<open>
  The server-to-server branch of the middleware installed when \<^verbatim>\<open>passwordSecret\<close> is
  set, for a request whose header \<^verbatim>\<open>x-moloch-auth\<close> is \<open>tok\<close>. A NaN compares false
  with \<^verbatim>\<open>> 120000\<close>, so a token without a numeric date passes the timestamp test.
\<close>

definition s2sAuth :: "settings \<Rightarrow> world \<Rightarrow> request \<Rightarrow> string \<Rightarrow> outcome" where
  "s2sAuth conf w req tok =
     (case auth2obj w tok of
        None \<Rightarrow> Throws
      | Some obj \<Rightarrow>
          (case tok_path obj of
             None \<Rightarrow> Throws
           | Some path \<Rightarrow>
               if js_replace (basePath conf) ''/'' path \<noteq> url req
               then Respond (res_send [''Unauthorized based on bad url, check logs on '', hostName conf])
               else if (case tok_date obj of None \<Rightarrow> False | Some d \<Rightarrow> \<bar>now_ms w - d\<bar> > 120000)
               then Respond (res_send [''Unauthorized based on timestamp - check that all moloch viewer machines have accurate clocks''])
               else if receive_url (url req) then Next None
               else (case getUserCache w (tok_user obj) of
                       LookupError err \<Rightarrow>
                         Respond (res_send [''ERROR - x-moloch getUser - user: '' @ tok_user obj @ '' err:'' @ err])
                     | LookupMissing \<Rightarrow> Respond (res_send [tok_user obj @ '' doesn't exist''])
                     | LookupFound suser \<Rightarrow>
                         if \<not> has suser ''enabled''
                         then Respond (res_send [tok_user obj @ '' not enabled''])
                         else Next (Some suser))))"

text \<open>
  \<^verbatim>\<open>ucb (err, suser, userName)\<close>, the callback of the header authentication. A lookup
  calls back with an error or with a user, not with both.
\<close>

definition ucb :: "user_lookup \<Rightarrow> string \<Rightarrow> outcome" where
  "ucb lookup userName =
     (case lookup of
        LookupError err \<Rightarrow> Respond (res_send [''ERROR - getUser - user: '' @ userName @ '' err: '' @ err])
      | LookupMissing \<Rightarrow> Respond (res_send [userName @ '' doesn't exist''])
      | LookupFound suser \<Rightarrow>
          if \<not> has suser ''enabled'' then Respond (res_send [userName @ '' not enabled''])
          else if \<not> has suser ''headerAuthEnabled''
          then Respond (res_send [userName @ '' header auth not enabled''])
          else Next (Some suser))"

text \<open>
  The header authentication for a request whose user name header is \<open>userName\<close>. With a
  template, a user that is not found is created and looked up again (a lookup error
  comes without a user, so \<^verbatim>\<open>!suser\<close> holds whatever the error text includes); this second
  \<^verbatim>\<open>Db.getUserCache (userName, ucb)\<close> calls \<^verbatim>\<open>ucb\<close> with two arguments, so the texts of
  \<^verbatim>\<open>ucb\<close> then print \<^verbatim>\<open>undefined\<close> for the user name.
\<close>

definition headerAuth :: "settings \<Rightarrow> world \<Rightarrow> request \<Rightarrow> string \<Rightarrow> outcome" where
  "headerAuth conf w req userName =
     (let lookedUp =
            (let lookup = getUserCache w userName
             in if userAutoCreateTmpl conf = None then ucb lookup userName
                else (case lookup of
                        LookupFound suser \<Rightarrow> ucb lookup userName
                      | _ \<Rightarrow> if tmplUser w then ucb (getUserCacheCreated w userName) ''undefined''
                             else Throws))
      in case (requiredAuthHeader conf, requiredAuthHeaderVal conf) of
           (Some h, Some v) \<Rightarrow>
             (case header req h of
                None \<Rightarrow> Respond (res_send [''Missing authorization header''])
              | Some authHeader \<Rightarrow>
                  if list_ex (\<lambda>headerVal. trim headerVal = v) (split_on (CHR '','') authHeader)
                  then lookedUp
                  else Respond (res_send [''Not authorized'']))
         | _ \<Rightarrow> lookedUp)"

text \<open>
  The browser authentication: \<^verbatim>\<open>passport.authenticate ('digest', ...)\<close> with the verify
  function that viewer.js gives to the \<^verbatim>\<open>DigestStrategy\<close>, and the callback of line 357.
  \<^verbatim>\<open>done (err)\<close> reaches the callback, which answers with \<^verbatim>\<open>res.molochError (200,
  err)\<close>; \<^verbatim>\<open>done (null, false)\<close>, missing credentials and a digest that does not match
  make passport-http send its challenge.
\<close>

definition digestAuth :: "world \<Rightarrow> outcome" where
  "digestAuth w =
     (case digestUserid w of
        None \<Rightarrow> PassportChallenge
      | Some userid \<Rightarrow>
          (case getUserCache w userid of
             LookupError err \<Rightarrow> Respond (molochError (Some 200) err)
           | LookupMissing \<Rightarrow> PassportChallenge
           | LookupFound suser \<Rightarrow>
               if \<not> has suser ''enabled'' then Respond (molochError (Some 200) ''Not enabled'')
               else if digestMatches w then Next (Some suser)
               else PassportChallenge))"

text \<open>
  The whole middleware installed when \<^verbatim>\<open>passwordSecret\<close> is set. An absent or empty
  header \<^verbatim>\<open>x-moloch-auth\<close> is falsy; the user name header counts when it is defined,
  also when it is empty.
\<close>

definition passwordSecretAuth :: "settings \<Rightarrow> world \<Rightarrow> request \<Rightarrow> outcome" where
  "passwordSecretAuth conf w req =
     (if url req = ''/_ns_/nstest.html'' then Respond res_end
      else if no_auth_url (url req) then Next None
      else (case header req ''x-moloch-auth'' of
              Some (c # cs) \<Rightarrow> s2sAuth conf w req (c # cs)
            | _ \<Rightarrow>
                if receive_url (url req) then Respond (res_send [''receive session only allowed s2s''])
                else (case userNameHeader conf of
                        None \<Rightarrow> digestAuth w
                      | Some h \<Rightarrow>
                          (case header req h of
                             None \<Rightarrow> digestAuth w
                           | Some userName \<Rightarrow> headerAuth conf w req userName))))"

section \<open>Cron queries (viewer.js)\<close>

text \<open>
  A cron query document. \<^verbatim>\<open>count\<close>, \<^verbatim>\<open>notifier\<close>, \<^verbatim>\<open>lastNotified\<close> and
  \<^verbatim>\<open>lastNotifiedCount\<close> may be absent.
\<close>

record cron_query =
  enabled :: bool
  creator :: string
  query :: string
  action :: string
  lpValue :: int
  count :: "int option"
  notifier :: "string option"
  lastNotified :: "int option"
  lastNotifiedCount :: "int option"

text \<open>
  An entry of \<^verbatim>\<open>query.query.bool.filter\<close>: the empty object, a range on a field with
  its \<^verbatim>\<open>gte\<close> and \<^verbatim>\<open>lt\<close> bounds, or a compiled expression.
\<close>

datatype es_filter = EmptyFilter | RangeFilter string int int | Compiled string

text \<open>\<^verbatim>\<open>filter[0] = v\<close>: JavaScript extends an empty array.\<close>

definition set_first :: "'a \<Rightarrow> 'a list \<Rightarrow> 'a list" where
  "set_first v xs = (case xs of [] \<Rightarrow> [v] | y # ys \<Rightarrow> v # ys)"

text \<open>
  A page of the scroll as \<^verbatim>\<open>getMoreUntilDone\<close> sees it: an error, or the number of
  hits.
\<close>

datatype scroll_page = PageError | Hits nat

text \<open>
  \<^verbatim>\<open>getMoreUntilDone\<close> with \<^verbatim>\<open>doNext\<close> in \<^verbatim>\<open>processCronQuery\<close>: the count over the
  pages until an error or an empty page. A scroll that has delivered all its pages
  answers with an empty one.
\<close>

fun drain :: "scroll_page list \<Rightarrow> int \<Rightarrow> int" where
  "drain [] n = n"
| "drain (PageError # ps) n = n"
| "drain (Hits k # ps) n = (if k = 0 then n else drain ps (n + int k))"

text \<open>
  \<^verbatim>\<open>processCronQuery (cq, options, query, endTime, cb)\<close>. The body of its
  \<^verbatim>\<open>async.doWhilst\<close> always calls back with \<^verbatim>\<open>'DONE'\<close> or \<^verbatim>\<open>'ERR'\<close>, which ends the
  loop, so one slice is processed per call. The result is the filter list of the search
  and the arguments of \<^verbatim>\<open>cb (count, singleEndTime)\<close>.
\<close>

definition processCronQuery ::
  "cron_query \<Rightarrow> es_filter list \<Rightarrow> int \<Rightarrow> scroll_page list \<Rightarrow> es_filter list \<times> int \<times> int" where
  "processCronQuery cq filters endTime pages =
     (let singleEndTime = min endTime (lpValue cq + 24 * 60 * 60)
      in (set_first (RangeFilter ''timestamp'' (lpValue cq * 1000) (singleEndTime * 1000)) filters,
          drain pages 0,
          singleEndTime))"

text \<open>
  The update document of \<^verbatim>\<open>processCronQueries\<close>, \<^verbatim>\<open>{ doc: { lpValue, lastRun, count } }\<close>.
  The object literal has no \<^verbatim>\<open>lastNotifiedCount\<close>, so reading that property of it
  gives undefined; the record keeps the property to say so.
\<close>

record cron_doc =
  doc_lpValue :: int
  doc_lastRun :: int
  doc_count :: int
  doc_lastNotifiedCount :: "int option"

text \<open>The alert message: the numbers of new and of total matches it reports.\<close>

record alert =
  newMatchCount :: int
  totalCount :: int

datatype tick = Skipped | Updated "es_filter list" cron_doc "alert option"

definition opt_or0 :: "int option \<Rightarrow> int" where
  "opt_or0 a = (case a of None \<Rightarrow> 0 | Some v \<Rightarrow> v)"

text \<open>
  The callback that \<^verbatim>\<open>processCronQueries\<close> passes to \<^verbatim>\<open>processCronQuery\<close>: it builds
  the update document and decides on the alert. \<open>now\<close> is
  \<^verbatim>\<open>Math.floor (Date.now () / 1000)\<close>.
\<close>

definition cronUpdate :: "cron_query \<Rightarrow> int \<Rightarrow> int \<Rightarrow> int \<Rightarrow> cron_doc \<times> alert option" where
  "cronUpdate cq cnt lp now =
     (let document = \<lparr>doc_lpValue = lp, doc_lastRun = now, doc_count = opt_or0 (count cq) + cnt,
                       doc_lastNotifiedCount = None\<rparr>
      in (document,
          if notifier cq \<noteq> None \<and> notifier cq \<noteq> Some [] \<and> cnt \<noteq> 0 \<and>
             count cq \<noteq> Some (doc_count document) \<and>
             (lastNotified cq = None \<or> lastNotified cq = Some 0 \<or> now - opt_or0 (lastNotified cq) \<ge> 600)
          then Some \<lparr>newMatchCount =
                        (case doc_lastNotifiedCount document of
                           None \<Rightarrow> doc_count document
                         | Some n \<Rightarrow> if n = 0 then doc_count document else doc_count document - n),
                      totalCount = doc_count document\<rparr>
          else None))"

text \<open>
  One query in one pass of \<^verbatim>\<open>processCronQueries\<close>. \<open>nowSec\<close> is the clock when the
  pass computes \<^verbatim>\<open>endTime\<close>, \<open>cronTimeout\<close> is \<^verbatim>\<open>internals.cronTimeout\<close>, \<open>lookup\<close> is
  the creator as \<^verbatim>\<open>getUserCacheIncAnon\<close> finds it, \<open>parse\<close> is the expression parser
  (\<open>None\<close> when it throws), \<open>pages\<close> is what the scroll returns and \<open>now\<close> the clock at
  the update.
\<close>

definition processCronQueries ::
  "int \<Rightarrow> int \<Rightarrow> user_lookup \<Rightarrow> (string \<Rightarrow> string option) \<Rightarrow> scroll_page list \<Rightarrow> int \<Rightarrow> cron_query \<Rightarrow> tick" where
  "processCronQueries nowSec cronTimeout lookup parse pages now cq =
     (let endTime = nowSec - cronTimeout
      in if \<not> enabled cq \<or> endTime < lpValue cq then Skipped
         else (case lookup of
                 LookupError err \<Rightarrow> Skipped
               | LookupMissing \<Rightarrow> Skipped
               | LookupFound u \<Rightarrow>
                   if \<not> has u ''enabled'' then Skipped
                   else (case parse (query cq) of
                           None \<Rightarrow> Skipped
                         | Some q \<Rightarrow>
                             (case (case expression u of
                                      None \<Rightarrow> Some [EmptyFilter, Compiled q]
                                    | Some [] \<Rightarrow> Some [EmptyFilter, Compiled q]
                                    | Some e \<Rightarrow> map_option (\<lambda>ue. [EmptyFilter, Compiled q, Compiled ue]) (parse e)) of
                                None \<Rightarrow> Skipped
                              | Some filters \<Rightarrow>
                                  (case processCronQuery cq filters endTime pages of
                                     (fs, cnt, lp) \<Rightarrow>
                                       (case cronUpdate cq cnt lp now of
                                          (document, al) \<Rightarrow> Updated fs document al))))))"







section \<open>Scrubbing packets (viewer.js)\<close>

text \<open>
  A buffer is its list of bytes. \<^verbatim>\<open>Buffer.alloc (n)\<close> is zero-filled and
  \<^verbatim>\<open>buf.fill (v)\<close> sets every byte.
\<close>

type_synonym buffer = "char list"

definition Buffer_alloc :: "nat \<Rightarrow> buffer" where
  "Buffer_alloc n = replicate n (CHR 0x00)"

definition fill :: "buffer \<Rightarrow> char \<Rightarrow> buffer" where
  "fill buf v = map (\<lambda>b. v) buf"

text \<open>
  \<^verbatim>\<open>buf.write (str, offset)\<close> for an ASCII string: as many bytes as fit are written
  from \<open>offset\<close> on, and their number is returned.
\<close>

definition Buffer_write :: "buffer \<Rightarrow> string \<Rightarrow> nat \<Rightarrow> buffer \<times> nat" where
  "Buffer_write buf str offset =
     (let n = min (length str) (length buf - offset)
      in (take offset buf @ take n str @ drop (offset + n) buf, n))"

definition str :: string where
  "str = ''Scrubbed! Hoot! ''"

text \<open>
  \<^verbatim>\<open>for (let i = 0; i < 5000;) { i += buf.write (str, i); }\<close>. A write of no bytes
  would leave \<open>i\<close> as it is and the loop would never end: that is \<open>None\<close>.
\<close>

function write_loop :: "buffer \<Rightarrow> nat \<Rightarrow> buffer option" where
  "write_loop buf i =
     (if i < 5000
      then (case Buffer_write buf str i of
              (buf', n) \<Rightarrow> if n = 0 then None else write_loop buf' (i + n))
      else Some buf)"
  by pat_completeness auto
termination
  by (relation "measure (\<lambda>(buf, i). 5000 - i)") auto

declare write_loop.simps [simp del]

text \<open>\<^verbatim>\<open>pcapScrub.scrubbingBuffers\<close> as the first call of \<^verbatim>\<open>pcapScrub\<close> builds them.\<close>

definition scrubbingBuffers :: "buffer list option" where
  "scrubbingBuffers =
     (case write_loop (Buffer_alloc 5000) 0 of
        None \<Rightarrow> None
      | Some b2 \<Rightarrow> Some [fill (Buffer_alloc 5000) (CHR 0x00), fill (Buffer_alloc 5000) (CHR 0x01), b2])"

text \<open>
  Modelled from the spec: \<^verbatim>\<open>pcap.scrubPacket\<close> is defined in pcap.js, which is not among
  the sources. The specification says that scrubPacket (handle, offset, fillBuffer,
  alsoHeader) overwrites the packet payload and, if alsoHeader, the 16-byte record
  header in place. One call is one overwrite pass: where, with which fill buffer, and
  what it covers.
\<close>

record pass =
  pass_pos :: int
  pass_fill :: buffer
  pass_payload :: bool
  pass_header :: bool

definition scrubPacket :: "int \<Rightarrow> buffer \<Rightarrow> bool \<Rightarrow> pass" where
  "scrubPacket pos fillBuffer alsoHeader =
     \<lparr>pass_pos = pos, pass_fill = fillBuffer, pass_payload = True, pass_header = alsoHeader\<rparr>"

text \<open>
  The \<^verbatim>\<open>try\<close> block of \<^verbatim>\<open>processFile\<close> makes four calls: \<^verbatim>\<open>pcap.decode\<close>, then
  \<^verbatim>\<open>pcap.scrubPacket\<close> three times. \<open>throwsAt\<close> is the number of the call that throws
  (0 for the decode), if one does; the passes made before it stay made.
\<close>

definition try_scrub :: "buffer list \<Rightarrow> string \<Rightarrow> int \<Rightarrow> nat option \<Rightarrow> pass list" where
  "try_scrub bufs whatToRemove pos throwsAt =
     (let passes = map (\<lambda>b. scrubPacket pos b (whatToRemove = ''all'')) (take 3 bufs)
      in case throwsAt of
           None \<Rightarrow> passes
         | Some k \<Rightarrow> take (k - 1) passes)"

text \<open>
  \<^verbatim>\<open>processFile (pcap, pos, i, nextCb)\<close> once \<^verbatim>\<open>pcap.readPacket\<close> has called back:
  \<open>packet\<close> is the length of the packet read, \<open>None\<close> when there is none. The result is
  the passes made and whether \<^verbatim>\<open>nextCb\<close> was called.
\<close>

definition processFile :: "buffer list \<Rightarrow> string \<Rightarrow> int \<Rightarrow> nat option \<Rightarrow> nat option \<Rightarrow> pass list \<times> bool" where
  "processFile bufs whatToRemove pos packet throwsAt =
     (case packet of
        None \<Rightarrow> ([], False)
      | Some len \<Rightarrow>
          if len > 16 then (try_scrub bufs whatToRemove pos throwsAt, True)
          else ([], True))"

text \<open>
  \<^verbatim>\<open>pcapScrub\<close> for one entry \<open>pos\<close> of \<^verbatim>\<open>packetPos\<close> that names a packet: the buffers
  are built first, and \<^verbatim>\<open>processFile\<close> is reached only when \<^verbatim>\<open>whatToRemove\<close> is not
  \<^verbatim>\<open>'spi'\<close>. \<open>None\<close> would be a first call that never gets past building the buffers.
\<close>

definition pcapScrub_packet ::
  "string \<Rightarrow> int \<Rightarrow> nat option \<Rightarrow> nat option \<Rightarrow> (pass list \<times> bool) option" where
  "pcapScrub_packet whatToRemove pos packet throwsAt =
     (case scrubbingBuffers of
        None \<Rightarrow> None
      | Some bufs \<Rightarrow>
          Some (if whatToRemove = ''spi'' then ([], False)
                else processFile bufs whatToRemove pos packet throwsAt))"

text \<open>
  A buffer of \<open>n\<close> bytes that repeats the string \<open>s\<close>: byte \<open>k\<close> is byte
  \<open>k mod length s\<close> of \<open>s\<close>. The statements about the third buffer use it.
\<close>

definition repeated :: "string \<Rightarrow> nat \<Rightarrow> buffer" where
  "repeated s n = map (\<lambda>k. s ! (k mod length s)) [0..<n]"

section \<open>Expiring capture files (viewer.js)\<close>

text \<open>A document of the files index.\<close>

record file_doc =
  file_id :: string
  file_num :: int
  file_name :: string
  file_first :: int
  file_node :: string
  locked :: "int option"

text \<open>
  An Elasticsearch wildcard pattern: \<^verbatim>\<open>*\<close> stands for any characters, \<^verbatim>\<open>?\<close> for one.
\<close>

fun wildcard :: "string \<Rightarrow> string \<Rightarrow> bool" where
  "wildcard [] [] = True"
| "wildcard [] (c # cs) = False"
| "wildcard (p # ps) [] = (p = CHR ''*'' \<and> wildcard ps [])"
| "wildcard (p # ps) (c # cs) =
     (if p = CHR ''*'' then wildcard ps (c # cs) \<or> wildcard (p # ps) cs
      else (p = CHR ''?'' \<or> p = c) \<and> wildcard ps cs)"

text \<open>The pattern that \<^verbatim>\<open>expireDevice\<close> builds for a directory.\<close>

definition dir_pattern :: "string \<Rightarrow> string" where
  "dir_pattern pcapDir =
     (if pcapDir \<noteq> [] \<and> last pcapDir = CHR ''/'' then pcapDir @ ''*'' else pcapDir @ ''/*'')"

text \<open>
  The query of \<^verbatim>\<open>expireDevice\<close> read against a files index: the node is one of
  \<open>nodes\<close>, the name matches the pattern of one of the directories (an empty
  \<^verbatim>\<open>should\<close> list matches all), and \<^verbatim>\<open>must_not: { term: { locked: 1 } }\<close>.
\<close>

definition query_matches :: "string list \<Rightarrow> string list \<Rightarrow> file_doc \<Rightarrow> bool" where
  "query_matches nodes dirs f =
     (file_node f \<in> set nodes \<and>
      (dirs = [] \<or> list_ex (\<lambda>d. wildcard (dir_pattern d) (file_name f)) dirs) \<and>
      locked f \<noteq> Some 1)"

text \<open>
  The answer of \<^verbatim>\<open>Db.search ('files', 'file', query, ...)\<close>: the number of matching
  documents and the first 200 of them sorted by \<^verbatim>\<open>first\<close>, ascending.
\<close>

definition search_files :: "string list \<Rightarrow> string list \<Rightarrow> file_doc list \<Rightarrow> int \<times> file_doc list" where
  "search_files nodes dirs index =
     (let ms = filter (query_matches nodes dirs) index
      in (int (length ms), take 200 (sort_key file_first ms)))"

text \<open>
  The iterator of \<^verbatim>\<open>async.forEachSeries\<close> in \<^verbatim>\<open>expireDevice\<close>, over the hits left.
  \<open>hitsTotal\<close> is \<^verbatim>\<open>data.hits.total\<close>, counted down with each deletion. \<open>low deleted
  item\<close> says whether, with the files \<open>deleted\<close> gone, \<^verbatim>\<open>statVFS\<close> reports less free
  space than \<^verbatim>\<open>minFreeSpaceG\<close> for the item or fails; \<open>deleteErr item\<close> says whether
  \<^verbatim>\<open>Db.deleteFile\<close> calls back with an error, which ends the series. The result is the
  files handed to \<^verbatim>\<open>Db.deleteFile\<close>, in order, and the final count.
\<close>

fun forEachSeries ::
  "(file_doc list \<Rightarrow> file_doc \<Rightarrow> bool) \<Rightarrow> (file_doc \<Rightarrow> bool) \<Rightarrow> int \<Rightarrow> file_doc list \<Rightarrow> file_doc list
     \<Rightarrow> file_doc list \<times> int" where
  "forEachSeries low deleteErr hitsTotal deleted [] = (deleted, hitsTotal)"
| "forEachSeries low deleteErr hitsTotal deleted (item # items) =
     (if hitsTotal \<le> 10 then (deleted, hitsTotal)
      else if low deleted item
      then (if deleteErr item then (deleted @ [item], hitsTotal - 1)
            else forEachSeries low deleteErr (hitsTotal - 1) (deleted @ [item]) items)
      else (deleted, hitsTotal))"

text \<open>
  \<^verbatim>\<open>expireDevice (nodes, dirs, minFreeSpaceG, nextCb)\<close> on a files index. \<open>searchErr\<close>
  stands for \<^verbatim>\<open>err || data.error || !data.hits\<close>.
\<close>

definition expireDevice ::
  "(file_doc list \<Rightarrow> file_doc \<Rightarrow> bool) \<Rightarrow> (file_doc \<Rightarrow> bool) \<Rightarrow> bool \<Rightarrow> string list \<Rightarrow> string list
     \<Rightarrow> file_doc list \<Rightarrow> file_doc list \<times> int" where
  "expireDevice low deleteErr searchErr nodes dirs index =
     (case search_files nodes dirs index of
        (hitsTotal, hits) \<Rightarrow>
          if searchErr \<or> hitsTotal \<le> 10 then ([], hitsTotal)
          else forEachSeries low deleteErr hitsTotal [] hits)"

section \<open>Properties of the failed-session list\<close>

lemma continueHuntSkipSession_cases:
  "continueHuntSkipSession now h sid =
     (if length (failed_ids h) > 10000
      then (pauseHuntJobWithError now h tooManyUnreachable None, PausedWithError)
      else (h\<lparr>failedSessionIds :=
                Some (if sid \<in> set (failed_ids h) then failed_ids h else failed_ids h @ [sid])\<rparr>,
            ToUpdateHuntStats))"
  by (cases "failedSessionIds h") (auto simp: continueHuntSkipSession_def failed_ids_def)

lemma pause_fields:
  "status (pauseHuntJobWithError now h e n) = Paused"
  "failedSessionIds (pauseHuntJobWithError now h e n) = failedSessionIds h"
  "error_list (pauseHuntJobWithError now h e n) =
     error_list h @ [\<lparr>evalue = error_value e, etime = now, enode = n\<rparr>]"
  by (auto simp: pauseHuntJobWithError_def Let_def error_list_def split: option.splits)

lemma skip_paths:
  "runHuntJob_remote now h nd sid TransportError = continueHuntSkipSession now h sid"
  "huntFailedSessions_iter now h sid False reply = continueHuntSkipSession now h sid"
  "huntFailedSessions_iter now h sid True TransportError = continueHuntSkipSession now h sid"
  by (simp_all add: runHuntJob_remote_def huntFailedSessions_iter_def)

text \<open>
  \<^verbatim>\<open>sessionHunt\<close> reports a session that cannot be read as a session without a match,
  and so does the peer whose \<^verbatim>\<open>Db.get\<close> answers with an object that has \<^verbatim>\<open>error\<close>. A
  \<^verbatim>\<open>Db.get\<close> that rejects on the peer pauses the hunt on the calling node.
\<close>

lemma sessionHunt_error:
  "opt_type options = ''reassembled'' \<or> opt_type options = ''raw'' \<Longrightarrow>
   sessionHunt options found (ProcessError err) = Some (None, False)"
  by (auto simp: sessionHunt_def)

lemma peer_without_session_document_not_recorded:
  "huntRemote Document WithError options found result = ReplyMatched False"
  "runHuntJob_remote now h nd sid (ReplyMatched False) = (h, ToUpdateHuntStats)"
  by (simp_all add: huntRemote_def runHuntJob_remote_def)

lemma peer_rejection_pauses:
  "huntRemote Document (Rejected err) options found result = ReplyError err"
  "failedSessionIds (fst (runHuntJob_remote now h nd sid (ReplyError err))) = failedSessionIds h"
  "status (fst (runHuntJob_remote now h nd sid (ReplyError err))) = Paused"
  by (simp_all add: huntRemote_def runHuntJob_remote_def pause_fields)

text \<open>
  Claim C6, as stated, has the session id added to \<^verbatim>\<open>failedSessionIds\<close> for every hunt
  session whose session document cannot be fetched. In the scan of \<^verbatim>\<open>runHuntJob\<close> the
  document of a local hit is fetched inside \<^verbatim>\<open>sessionHunt\<close>, which answers a failure with
  \<^verbatim>\<open>cb (null, false)\<close>. Here a running hunt has one hit, on the node itself, and the
  session cannot be read: the hit counts as searched without a match, the hunt is left as
  it was and \<^verbatim>\<open>failedSessionIds\<close> stays empty.
\<close>

theorem unreadable_session_not_recorded:
  "localHit
     (runHuntJob
        \<lparr>status = Running, lastUpdated = 100, totalSessions = 1, searchedSessions = 0,
          matchedSessions = 0, lastPacketTime = None, failedSessionIds = None, errors = None,
          hunt_unrunnable = False\<rparr>
        [Page 1, Iterator \<lparr>lastPacket = 50, fileId = Some [1], node = ''n1''\<rparr> 100])
     \<lparr>lastPacket = 50, fileId = Some [1], node = ''n1''\<rparr>
     \<lparr>opt_src = True, opt_dst = True, opt_type = ''raw''\<rparr> (\<lambda>p. True)
     (ProcessError ''session not found'') 101
   = \<lparr>sc_hunt =
        \<lparr>status = Running, lastUpdated = 100, totalSessions = 1, searchedSessions = 0,
          matchedSessions = 0, lastPacketTime = None, failedSessionIds = None, errors = None,
          hunt_unrunnable = False\<rparr>,
      sc_searchedSessions = Some 1, sc_pending = [], sc_written = []\<rparr> \<and>
   failed_ids
     \<lparr>status = Running, lastUpdated = 100, totalSessions = 1, searchedSessions = 0,
       matchedSessions = 0, lastPacketTime = None, failedSessionIds = None, errors = None,
       hunt_unrunnable = False\<rparr> = []"
  by (simp add: localHit_def sessionHunt_def sessionHunt_cb_def updateHuntStats_def
      runHuntJob_def run_def step_def getMoreUntilDone_def iterator_def failed_ids_def Let_def)

text \<open>
  Claim C6, for the calls of \<^verbatim>\<open>continueHuntSkipSession\<close>. A transport error of the peer
  call in \<^verbatim>\<open>runHuntJob\<close>, and in \<^verbatim>\<open>huntFailedSessions\<close> a session document that
  \<^verbatim>\<open>Db.getSession\<close> cannot fetch or a transport error of the peer call, all go through
  \<^verbatim>\<open>continueHuntSkipSession\<close>. After it the session id is in \<^verbatim>\<open>failedSessionIds\<close> (the
  list gains exactly that id, the hunt is not paused by this call), unless the list
  already held more than 10000 entries: then the list is left as it was and the hunt is
  paused with the error "Too many sessions are unreachable" appended to its errors.
\<close>

theorem failed_session_recorded_or_hunt_paused:
  "runHuntJob_remote now h nd sid TransportError = continueHuntSkipSession now h sid \<and>
   huntFailedSessions_iter now h sid False reply = continueHuntSkipSession now h sid \<and>
   huntFailedSessions_iter now h sid True TransportError = continueHuntSkipSession now h sid \<and>
   (if length (failed_ids h) > 10000
    then snd (continueHuntSkipSession now h sid) = PausedWithError \<and>
         status (fst (continueHuntSkipSession now h sid)) = Paused \<and>
         failed_ids (fst (continueHuntSkipSession now h sid)) = failed_ids h \<and>
         error_list (fst (continueHuntSkipSession now h sid)) = error_list h @
           [\<lparr>evalue = ''Error hunting: Too many sessions are unreachable. Please contact your administrator.'',
             etime = now, enode = None\<rparr>]
    else snd (continueHuntSkipSession now h sid) = ToUpdateHuntStats \<and>
         sid \<in> set (failed_ids (fst (continueHuntSkipSession now h sid))) \<and>
         set (failed_ids (fst (continueHuntSkipSession now h sid))) = insert sid (set (failed_ids h)) \<and>
         status (fst (continueHuntSkipSession now h sid)) = status h)"
  unfolding skip_paths continueHuntSkipSession_cases
  by (auto simp: pause_fields failed_ids_def tooManyUnreachable_def)

theorem failed_session_recorded_or_hunt_paused_witness:
  "''s1'' \<in> set (failed_ids (fst (continueHuntSkipSession 7
      \<lparr>status = Running, lastUpdated = 5, totalSessions = 9, searchedSessions = 4,
        matchedSessions = 1, lastPacketTime = None, failedSessionIds = Some [''s0''],
        errors = None, hunt_unrunnable = False\<rparr> ''s1''))) \<and>
   status (fst (continueHuntSkipSession 7
      \<lparr>status = Running, lastUpdated = 5, totalSessions = 9, searchedSessions = 4,
        matchedSessions = 1, lastPacketTime = None,
        failedSessionIds = Some (replicate 10001 ''s0''),
        errors = None, hunt_unrunnable = False\<rparr> ''s1'')) = Paused \<and>
   failed_ids (fst (continueHuntSkipSession 7
      \<lparr>status = Running, lastUpdated = 5, totalSessions = 9, searchedSessions = 4,
        matchedSessions = 1, lastPacketTime = None,
        failedSessionIds = Some (replicate 10001 ''s0''),
        errors = None, hunt_unrunnable = False\<rparr> ''s1'')) = replicate 10001 ''s0''"
  using failed_session_recorded_or_hunt_paused [of 7
      "\<lparr>status = Running, lastUpdated = 5, totalSessions = 9, searchedSessions = 4,
        matchedSessions = 1, lastPacketTime = None, failedSessionIds = Some [''s0''],
        errors = None, hunt_unrunnable = False\<rparr>" "''n2''" "''s1''" TransportError]
    failed_session_recorded_or_hunt_paused [of 7
      "\<lparr>status = Running, lastUpdated = 5, totalSessions = 9, searchedSessions = 4,
        matchedSessions = 1, lastPacketTime = None,
        failedSessionIds = Some (replicate 10001 ''s0''),
        errors = None, hunt_unrunnable = False\<rparr>" "''n2''" "''s1''" TransportError]
  by (simp add: failed_ids_def)

lemma continueHuntSkipSession_distinct:
  "distinct_ids h \<Longrightarrow> distinct_ids (fst (continueHuntSkipSession now h sid))"
  by (auto simp: distinct_ids_def continueHuntSkipSession_def pauseHuntJobWithError_def Let_def
      split: option.splits)

text \<open>
  Claim C10, as stated, holds of every hunt. \<^verbatim>\<open>POST /hunt\<close> stores the
  \<^verbatim>\<open>failedSessionIds\<close> of the request body as they are, and \<^verbatim>\<open>continueHuntSkipSession\<close>
  removes nothing. A hunt created with the list \<^verbatim>\<open>['a', 'a']\<close> has the list
  \<^verbatim>\<open>['a', 'a', 'b']\<close> after the sessions \<^verbatim>\<open>a\<close> and \<^verbatim>\<open>b\<close> were skipped: \<^verbatim>\<open>a\<close> is in it
  twice.
\<close>

theorem duplicate_failedSessionIds_kept:
  "createHunt 1000000
     \<lparr>status = Queued, lastUpdated = 0, totalSessions = 3, searchedSessions = 0,
       matchedSessions = 0, lastPacketTime = None, failedSessionIds = Some [''a'', ''a''],
       errors = None, hunt_unrunnable = False\<rparr>
   = Some \<lparr>status = Queued, lastUpdated = 0, totalSessions = 3, searchedSessions = 0,
       matchedSessions = 0, lastPacketTime = None, failedSessionIds = Some [''a'', ''a''],
       errors = None, hunt_unrunnable = False\<rparr> \<and>
   failedSessionIds (skipSessions 7
     \<lparr>status = Queued, lastUpdated = 0, totalSessions = 3, searchedSessions = 0,
       matchedSessions = 0, lastPacketTime = None, failedSessionIds = Some [''a'', ''a''],
       errors = None, hunt_unrunnable = False\<rparr> [''a'', ''b''])
   = Some [''a'', ''a'', ''b''] \<and>
   \<not> distinct [''a'', ''a'', ''b'']"
  by (simp add: createHunt_def continueHuntSkipSession_def)

text \<open>
  Claim C10, for a hunt that starts without a duplicate. \<^verbatim>\<open>continueHuntSkipSession\<close>
  appends a session id only when \<^verbatim>\<open>indexOf\<close> does not find it. So for a hunt whose
  \<^verbatim>\<open>failedSessionIds\<close> is absent or has pairwise distinct elements, the list has pairwise
  distinct elements after any sequence of calls of \<^verbatim>\<open>continueHuntSkipSession\<close>.
\<close>

theorem failedSessionIds_distinct:
  "distinct_ids h \<Longrightarrow> distinct_ids (skipSessions now h sids)"
  by (induction sids arbitrary: h) (auto intro: continueHuntSkipSession_distinct)

theorem failedSessionIds_distinct_witness:
  "distinct_ids \<lparr>status = Running, lastUpdated = 100, totalSessions = 3, searchedSessions = 0,
       matchedSessions = 0, lastPacketTime = None, failedSessionIds = None, errors = None,
       hunt_unrunnable = False\<rparr> \<and>
   failedSessionIds (skipSessions 7 \<lparr>status = Running, lastUpdated = 100, totalSessions = 3,
       searchedSessions = 0, matchedSessions = 0, lastPacketTime = None, failedSessionIds = None,
       errors = None, hunt_unrunnable = False\<rparr> [''a'', ''b'', ''a'']) = Some [''a'', ''b''] \<and>
   distinct_ids (skipSessions 7 \<lparr>status = Running, lastUpdated = 100, totalSessions = 3,
       searchedSessions = 0, matchedSessions = 0, lastPacketTime = None, failedSessionIds = None,
       errors = None, hunt_unrunnable = False\<rparr> [''a'', ''b'', ''a''])"
  using failedSessionIds_distinct [of "\<lparr>status = Running, lastUpdated = 100, totalSessions = 3,
       searchedSessions = 0, matchedSessions = 0, lastPacketTime = None, failedSessionIds = None,
       errors = None, hunt_unrunnable = False\<rparr>" 7 "[''a'', ''b'', ''a'']"]
  by (simp add: distinct_ids_def continueHuntSkipSession_def)

text \<open>
  The one place that removes from the list, in \<^verbatim>\<open>huntFailedSessions\<close>, keeps the
  elements distinct as well.
\<close>

lemma splice_distinct: "distinct ids \<Longrightarrow> distinct (splice_indexOf sid ids)"
  by (auto simp: splice_indexOf_def distinct_butlast)

lemma huntFailedSessions_iter_distinct:
  assumes "distinct_ids h"
  shows "distinct_ids (fst (huntFailedSessions_iter now h sid doc reply))"
proof (cases "doc \<and> (\<exists>m. reply = ReplyMatched m)")
  case True
  then show ?thesis using assms
    by (auto simp: huntFailedSessions_iter_def Let_def distinct_ids_def splice_distinct
        split: option.splits)
next
  case False
  then have "huntFailedSessions_iter now h sid doc reply = continueHuntSkipSession now h sid"
    by (cases reply) (auto simp: huntFailedSessions_iter_def)
  then show ?thesis using assms by (simp add: continueHuntSkipSession_distinct)
qed

section \<open>Properties of the hunt checkpoints\<close>

text \<open>
  Claim C1 says that the documents written by \<^verbatim>\<open>updateHuntStats\<close> and by the end of the
  scan have a non-decreasing \<^verbatim>\<open>searchedSessions\<close>, with \<^verbatim>\<open>searchedSessions\<close> at most
  \<^verbatim>\<open>totalSessions\<close> and \<^verbatim>\<open>matchedSessions\<close> at most \<^verbatim>\<open>searchedSessions\<close>. The code
  does not keep this. A page of three hits arrives two seconds after the last update.
  The first hit has no files, so its iterator calls \<^verbatim>\<open>updateHuntStats\<close> with the counter
  at 1 and \<^verbatim>\<open>Db.get\<close> is issued. The iterators of the other two hits start (counter 2,
  then 3) and their local searches complete with a match each; both call
  \<^verbatim>\<open>updateHuntStats\<close>, which issues \<^verbatim>\<open>Db.get\<close> again because \<^verbatim>\<open>hunt.lastUpdated\<close> is
  only set in the callback. Then the three requests are answered in the order they were
  issued. The first document written has \<^verbatim>\<open>searchedSessions\<close> 1, the value captured at
  the call, and \<^verbatim>\<open>matchedSessions\<close> 2, the value of the shared hunt object at the write.
  The triples are (searched, total, matched).
\<close>

theorem checkpoint_written_with_stale_searchedSessions:
  "written_counters (runHuntJob
      \<lparr>status = Running, lastUpdated = 100, totalSessions = 3, searchedSessions = 0,
        matchedSessions = 0, lastPacketTime = None, failedSessionIds = None, errors = None,
        hunt_unrunnable = False\<rparr>
      [Page 3,
       Iterator \<lparr>lastPacket = 5000, fileId = None, node = ''n1''\<rparr> 102,
       Iterator \<lparr>lastPacket = 6000, fileId = Some [1], node = ''n1''\<rparr> 102,
       Iterator \<lparr>lastPacket = 7000, fileId = Some [1], node = ''n1''\<rparr> 102,
       SessionHuntDone \<lparr>lastPacket = 6000, fileId = Some [1], node = ''n1''\<rparr> None True 102,
       SessionHuntDone \<lparr>lastPacket = 7000, fileId = Some [1], node = ''n1''\<rparr> None True 102,
       DbGetDone 0 (Found Running) 102,
       DbGetDone 0 (Found Running) 102,
       DbGetDone 0 (Found Running) 102,
       Page 3, ScanDone])
   = [(1, 3, 2), (3, 3, 2), (3, 3, 2), (3, 3, 2)]"
  by (simp add: written_counters_def runHuntJob_def run_def step_def iterator_def
      getMoreUntilDone_def updateHuntStats_def updateHuntStats_cb_def sessionHunt_cb_def
      js_or_def endOfScan_def Let_def)

text \<open>
  When two requests in flight are answered in the other order, the written
  \<^verbatim>\<open>searchedSessions\<close> goes down: two hits without files, the second checkpoint
  answered first.
\<close>

lemma checkpoints_answered_out_of_order:
  "written_counters (runHuntJob
      \<lparr>status = Running, lastUpdated = 100, totalSessions = 2, searchedSessions = 0,
        matchedSessions = 0, lastPacketTime = None, failedSessionIds = None, errors = None,
        hunt_unrunnable = False\<rparr>
      [Page 2,
       Iterator \<lparr>lastPacket = 5000, fileId = None, node = ''n1''\<rparr> 102,
       Iterator \<lparr>lastPacket = 6000, fileId = None, node = ''n1''\<rparr> 102,
       DbGetDone 1 (Found Running) 102,
       DbGetDone 0 (Found Running) 102])
   = [(2, 2, 0), (1, 2, 0)]"
  by (simp add: written_counters_def runHuntJob_def run_def step_def iterator_def
      getMoreUntilDone_def updateHuntStats_def updateHuntStats_cb_def js_or_def Let_def)

text \<open>
  The rest of this section shows that the checkpoints are in order when no checkpoint
  overlaps another callback.
\<close>

lemma pause_counters:
  "matchedSessions (pauseHuntJobWithError now h e n) = matchedSessions h"
  "totalSessions (pauseHuntJobWithError now h e n) = totalSessions h"
  "searchedSessions (pauseHuntJobWithError now h e n) = searchedSessions h"
  by (simp_all add: pauseHuntJobWithError_def Let_def)

lemma skip_counters:
  "matchedSessions (fst (continueHuntSkipSession now h sid)) = matchedSessions h"
  "totalSessions (fst (continueHuntSkipSession now h sid)) = totalSessions h"
  by (simp_all add: continueHuntSkipSession_def pause_counters split: option.splits)

lemma checkpoints_pause [simp]:
  "checkpoints (sc\<lparr>sc_hunt := h, sc_written := sc_written sc @ [(ByPause, h')]\<rparr>) = checkpoints sc"
  by (simp add: checkpoints_def)

lemma checkpoints_hunt [simp]:
  "checkpoints (sc\<lparr>sc_hunt := h\<rparr>) = checkpoints sc"
  "checkpoints (sc\<lparr>sc_pending := p\<rparr>) = checkpoints sc"
  "checkpoints (sc\<lparr>sc_searchedSessions := x\<rparr>) = checkpoints sc"
  by (simp_all add: checkpoints_def)

lemma inv_updateHuntStats:
  assumes "scan_inv n k sc" "sc_pending sc = []" "sc_searchedSessions sc = Some s" "0 < s"
  shows "scan_inv n k (updateHuntStats sc sess (Some s) now)"
  using assms by (auto simp: scan_inv_def updateHuntStats_def checkpoints_def)

lemma counters_ok_snoc:
  "counters_ok (hs @ [h]) =
     (counters_ok hs \<and> (\<forall>x \<in> set hs. searchedSessions x \<le> searchedSessions h) \<and>
      matchedSessions h \<le> searchedSessions h \<and> searchedSessions h \<le> totalSessions h)"
  by (auto simp: counters_ok_def sorted_append)

lemma checkpoints_snoc:
  "w \<noteq> ByPause \<Longrightarrow>
   checkpoints (sc\<lparr>sc_hunt := h, sc_written := sc_written sc @ [(w, h')]\<rparr>) = checkpoints sc @ [h']"
  by (simp add: checkpoints_def)

lemma inv_Page:
  assumes "scan_inv n k sc"
  shows "scan_inv n k (step sc (Page t))"
  using assms by (auto simp: scan_inv_def step_def getMoreUntilDone_def)

lemma inv_SearchFailed:
  assumes "scan_inv n k sc"
  shows "scan_inv n k (step sc (SearchFailed e now))"
  using assms by (auto simp: scan_inv_def step_def searchFailed_def Let_def pause_counters)

lemma inv_Iterator:
  assumes "scan_inv n k sc" "sc_pending sc = []" "0 < k"
  shows "scan_inv (if has_files sess then Suc n else n) (k - 1) (step sc (Iterator sess now))"
proof -
  from assms(1) obtain s where s: "sc_searchedSessions sc = Some s" by (auto simp: scan_inv_def)
  let ?sc1 = "sc\<lparr>sc_searchedSessions := Some (s + 1)\<rparr>"
  have i1: "scan_inv (if has_files sess then Suc n else n) (k - 1) ?sc1"
    using assms s by (auto simp: scan_inv_def)
  have pos: "0 < s + 1" using assms(1) s by (auto simp: scan_inv_def)
  show ?thesis
  proof (cases "has_files sess")
    case True
    then show ?thesis using i1 s by (auto simp: step_def iterator_def has_files_def Let_def)
  next
    case False
    have "scan_inv (if has_files sess then Suc n else n) (k - 1) (updateHuntStats ?sc1 sess (Some (s + 1)) now)"
      by (rule inv_updateHuntStats [OF i1]) (use assms pos in auto)
    then show ?thesis using False s by (auto simp: step_def iterator_def has_files_def Let_def)
  qed
qed

lemma inv_SessionHuntDone:
  assumes "scan_inv n k sc" "sc_pending sc = []" "0 < n"
  shows "scan_inv (n - 1) k (step sc (SessionHuntDone sess err m now))"
proof -
  from assms(1) obtain s where s: "sc_searchedSessions sc = Some s" by (auto simp: scan_inv_def)
  have pos: "0 < s" using assms s by (auto simp: scan_inv_def)
  show ?thesis
  proof (cases err)
    case (Some e)
    then show ?thesis using assms
      by (auto simp: scan_inv_def step_def sessionHunt_cb_def Let_def pause_counters)
  next
    case None
    let ?h = "if m then (sc_hunt sc)\<lparr>matchedSessions := matchedSessions (sc_hunt sc) + 1\<rparr> else sc_hunt sc"
    have i1: "scan_inv (n - 1) k (sc\<lparr>sc_hunt := ?h\<rparr>)"
      using assms s by (auto simp: scan_inv_def)
    have "scan_inv (n - 1) k (updateHuntStats (sc\<lparr>sc_hunt := ?h\<rparr>) sess (Some s) now)"
      by (rule inv_updateHuntStats [OF i1]) (use assms s pos in auto)
    then show ?thesis using None s by (simp add: step_def sessionHunt_cb_def Let_def)
  qed
qed

lemma inv_hunt_update:
  assumes "scan_inv n k sc" "matchedSessions h = matchedSessions (sc_hunt sc)"
    "totalSessions h = totalSessions (sc_hunt sc)"
  shows "scan_inv n k (sc\<lparr>sc_hunt := h\<rparr>)"
  using assms by (auto simp: scan_inv_def)

lemma inv_pause:
  assumes "scan_inv n k sc" "matchedSessions h = matchedSessions (sc_hunt sc)"
    "totalSessions h = totalSessions (sc_hunt sc)"
  shows "scan_inv n k (sc\<lparr>sc_hunt := h, sc_written := sc_written sc @ [(ByPause, h')]\<rparr>)"
  using assms by (auto simp: scan_inv_def checkpoints_def)

lemma inv_checkpoint:
  assumes "scan_inv n k sc" "sc_searchedSessions sc = Some s"
    "matchedSessions h = matchedSessions (sc_hunt sc)"
    "totalSessions h = totalSessions (sc_hunt sc)" "searchedSessions h = s"
  shows "scan_inv n k (sc\<lparr>sc_hunt := h, sc_written := sc_written sc @ [(ByUpdateHuntStats, h)]\<rparr>)"
  using assms by (auto simp: scan_inv_def checkpoints_def counters_ok_snoc)

lemma inv_MakeRequestDone:
  assumes "scan_inv n k sc" "sc_pending sc = []" "0 < n"
  shows "scan_inv (n - 1) k (step sc (MakeRequestDone sess sid reply now))"
proof -
  from assms(1) obtain s where s: "sc_searchedSessions sc = Some s" by (auto simp: scan_inv_def)
  have pos: "0 < s" using assms s by (auto simp: scan_inv_def)
  have dec: "scan_inv (n - 1) k sc" using assms by (auto simp: scan_inv_def)
  obtain h nx where r: "runHuntJob_remote now (sc_hunt sc) (node sess) sid reply = (h, nx)"
    by (cases "runHuntJob_remote now (sc_hunt sc) (node sess) sid reply")
  show ?thesis
  proof (cases nx)
    case PausedWithError
    have "matchedSessions h = matchedSessions (sc_hunt sc) \<and> totalSessions h = totalSessions (sc_hunt sc)"
      using r PausedWithError
      by (cases reply)
         (auto simp: runHuntJob_remote_def pause_counters continueHuntSkipSession_def
            split: option.splits if_splits)
    then have "scan_inv (n - 1) k (sc\<lparr>sc_hunt := h, sc_written := sc_written sc @ [(ByPause, h)]\<rparr>)"
      using dec by (auto simp: scan_inv_def)
    then show ?thesis using r PausedWithError by (simp add: step_def makeRequest_cb_def)
  next
    case ToUpdateHuntStats
    have m: "matchedSessions h \<le> matchedSessions (sc_hunt sc) + 1 \<and>
             matchedSessions (sc_hunt sc) \<le> matchedSessions h \<and>
             totalSessions h = totalSessions (sc_hunt sc)"
      using r ToUpdateHuntStats
      by (cases reply)
         (auto simp: runHuntJob_remote_def pause_counters continueHuntSkipSession_def
            split: option.splits if_splits)
    have i1: "scan_inv (n - 1) k (sc\<lparr>sc_hunt := h\<rparr>)"
      using assms s m by (auto simp: scan_inv_def)
    have "scan_inv (n - 1) k (updateHuntStats (sc\<lparr>sc_hunt := h\<rparr>) sess (Some s) now)"
      by (rule inv_updateHuntStats [OF i1]) (use assms s pos in auto)
    then show ?thesis using r ToUpdateHuntStats s by (simp add: step_def makeRequest_cb_def)
  qed
qed

lemma inv_DbGetDone:
  assumes "scan_inv n k sc" "length (sc_pending sc) = 1"
  shows "scan_inv n k (step sc (DbGetDone 0 reply now))"
proof -
  from assms(1) obtain s where s: "sc_searchedSessions sc = Some s" by (auto simp: scan_inv_def)
  from assms(2) obtain cp where p: "sc_pending sc = [cp]"
    by (cases "sc_pending sc") auto
  have cp: "cp_searchedSessions cp = Some s" "0 < s" using assms(1) s p by (auto simp: scan_inv_def)
  let ?sc = "sc\<lparr>sc_pending := []\<rparr>"
  have i0: "scan_inv n k ?sc" using assms(1) by (auto simp: scan_inv_def)
  have st: "step sc (DbGetDone 0 reply now) = updateHuntStats_cb ?sc cp reply now"
    using p by (simp add: step_def)
  show ?thesis
  proof (cases reply)
    case NotFound
    then show ?thesis using i0 st by (simp add: updateHuntStats_cb_def)
  next
    case (GetError e)
    define H where "H = pauseHuntJobWithError now (sc_hunt ?sc)
        \<lparr>error_value = ''Error finding hunt: '' @ e, error_unrunnable = False\<rparr> None"
    have eq: "updateHuntStats_cb ?sc cp reply now =
                ?sc\<lparr>sc_hunt := H, sc_written := sc_written ?sc @ [(ByPause, H)]\<rparr>"
      by (simp add: GetError updateHuntStats_cb_def Let_def H_def)
    show ?thesis unfolding st eq
      by (rule inv_pause [OF i0]) (simp_all add: H_def pause_counters)
  next
    case (Found x)
    define H where "H = (sc_hunt ?sc)\<lparr>status := x, lastUpdated := cp_now cp,
        searchedSessions := s, lastPacketTime := Some (cp_lastPacketTime cp)\<rparr>"
    have eq: "updateHuntStats_cb ?sc cp reply now =
                ?sc\<lparr>sc_hunt := H, sc_written := sc_written ?sc @ [(ByUpdateHuntStats, H)]\<rparr>"
      using cp by (simp add: Found updateHuntStats_cb_def Let_def H_def js_or_def)
    have s': "sc_searchedSessions ?sc = Some s" using s by simp
    show ?thesis unfolding st eq
      by (rule inv_checkpoint [OF i0 s']) (simp_all add: H_def)
  qed
qed

lemma inv_endOfScan:
  assumes "scan_inv 0 k sc"
  shows "counters_ok (checkpoints (endOfScan sc))"
proof -
  let ?h1 = "(sc_hunt sc)\<lparr>searchedSessions := totalSessions (sc_hunt sc)\<rparr>"
  obtain h2 where h2: "endOfScan sc = sc\<lparr>sc_hunt := h2, sc_written := sc_written sc @ [(ByEndOfScan, h2)]\<rparr>"
    and c: "searchedSessions h2 = totalSessions (sc_hunt sc)" "totalSessions h2 = totalSessions (sc_hunt sc)"
      "matchedSessions h2 = matchedSessions (sc_hunt sc)"
    by (auto simp: endOfScan_def Let_def split: option.splits list.splits)
  show ?thesis
    using assms c unfolding h2
    by (auto simp: checkpoints_snoc counters_ok_snoc scan_inv_def)
qed

lemma run_Cons: "run sc (ev # evs) = run (step sc ev) evs"
  by (simp add: run_def)

lemma serial_inv_run:
  "scan_inv n k sc \<Longrightarrow> serial n k sc evs \<Longrightarrow> counters_ok (checkpoints (run sc evs))"
proof (induction evs arbitrary: n k sc)
  case Nil
  then show ?case by (auto simp: run_def scan_inv_def)
next
  case (Cons ev evs)
  show ?case
  proof (cases ev)
    case (Page t)
    have "serial n k (step sc (Page t)) evs"
      using Cons.prems Page by (auto simp: scan_inv_def)
    with Cons.IH [OF inv_Page [OF Cons.prems(1)]] show ?thesis
      unfolding Page run_Cons by blast
  next
    case (SearchFailed e now)
    with Cons.prems Cons.IH [OF inv_SearchFailed [OF Cons.prems(1)]] show ?thesis
      by (simp add: run_Cons)
  next
    case (Iterator sess now)
    with Cons.prems have c: "sc_pending sc = []" "0 < k"
      and s: "serial (if has_files sess then Suc n else n) (k - 1) (step sc (Iterator sess now)) evs"
      by auto
    from Cons.IH [OF inv_Iterator [OF Cons.prems(1) c] s] show ?thesis
      unfolding Iterator run_Cons .
  next
    case (SessionHuntDone sess err m now)
    with Cons.prems have c: "sc_pending sc = []" "0 < n"
      and s: "serial (n - 1) k (step sc (SessionHuntDone sess err m now)) evs"
      by auto
    from Cons.IH [OF inv_SessionHuntDone [OF Cons.prems(1) c] s] show ?thesis
      unfolding SessionHuntDone run_Cons .
  next
    case (MakeRequestDone sess sid reply now)
    with Cons.prems have c: "sc_pending sc = []" "0 < n"
      and s: "serial (n - 1) k (step sc (MakeRequestDone sess sid reply now)) evs"
      by auto
    from Cons.IH [OF inv_MakeRequestDone [OF Cons.prems(1) c] s] show ?thesis
      unfolding MakeRequestDone run_Cons .
  next
    case (DbGetDone i reply now)
    with Cons.prems have c: "i = 0" "length (sc_pending sc) = 1"
      and s: "serial n k (step sc (DbGetDone 0 reply now)) evs"
      by auto
    from Cons.IH [OF inv_DbGetDone [OF Cons.prems(1) c(2)] s] show ?thesis
      unfolding DbGetDone run_Cons c(1) .
  next
    case ScanDone
    with Cons.prems have "n = 0" "evs = []" by auto
    with inv_endOfScan [of k sc] Cons.prems(1) show ?thesis
      unfolding ScanDone by (simp add: run_def step_def)
  qed
qed

lemma serial_start_run:
  assumes "sc_searchedSessions sc = None" "sc_pending sc = []" "checkpoints sc = []"
    "0 \<le> matchedSessions (sc_hunt sc)" "matchedSessions (sc_hunt sc) \<le> searchedSessions (sc_hunt sc)"
    "serial 0 k sc evs"
  shows "counters_ok (checkpoints (run sc evs))"
  using assms
proof (induction evs arbitrary: sc k)
  case Nil
  then show ?case by (simp add: run_def counters_ok_def)
next
  case (Cons ev evs)
  show ?case
  proof (cases ev)
    case (Page t)
    with Cons.prems have t: "0 \<le> t" and s: "serial 0 t (step sc (Page t)) evs" by auto
    have "scan_inv 0 t (step sc (Page t))"
      using Cons.prems(1-5) t
      by (auto simp: scan_inv_def step_def getMoreUntilDone_def Let_def counters_ok_def)
    from serial_inv_run [OF this s] show ?thesis unfolding Page run_Cons .
  next
    case (SearchFailed e now)
    with Cons.prems have s: "serial 0 k (step sc (SearchFailed e now)) evs" by auto
    show ?thesis unfolding SearchFailed run_Cons
      by (rule Cons.IH [OF _ _ _ _ _ s])
         (use Cons.prems in \<open>auto simp: step_def searchFailed_def Let_def pause_counters checkpoints_def\<close>)
  qed (use Cons.prems in auto)
qed

text \<open>
  In a serial order of callbacks the written documents are as Claim C1 wants them, for a
  hunt that starts with \<^verbatim>\<open>matchedSessions\<close> between 0 and \<^verbatim>\<open>searchedSessions\<close>. So
  it is the overlap of checkpoints with other callbacks that breaks the claim.
\<close>

lemma serial_checkpoints_ok:
  assumes "0 \<le> matchedSessions h" "matchedSessions h \<le> searchedSessions h"
    "serial 0 0 \<lparr>sc_hunt = h, sc_searchedSessions = None, sc_pending = [], sc_written = []\<rparr> evs"
  shows "counters_ok (checkpoints (runHuntJob h evs))"
  unfolding runHuntJob_def
  by (rule serial_start_run [OF _ _ _ _ _ assms(3)]) (use assms in \<open>auto simp: checkpoints_def\<close>)

text \<open>
  The three hits of the run above in a serial order: the checkpoint of the first hit is
  answered before the other two hits are searched.
\<close>

lemma serial_example:
  "serial 0 0 \<lparr>sc_hunt = \<lparr>status = Running, lastUpdated = 100, totalSessions = 3, searchedSessions = 0,
        matchedSessions = 0, lastPacketTime = None, failedSessionIds = None, errors = None,
        hunt_unrunnable = False\<rparr>, sc_searchedSessions = None, sc_pending = [], sc_written = []\<rparr>
      [Page 3,
       Iterator \<lparr>lastPacket = 5000, fileId = None, node = ''n1''\<rparr> 102,
       DbGetDone 0 (Found Running) 102,
       Iterator \<lparr>lastPacket = 6000, fileId = Some [1], node = ''n1''\<rparr> 102,
       Iterator \<lparr>lastPacket = 7000, fileId = Some [1], node = ''n1''\<rparr> 102,
       SessionHuntDone \<lparr>lastPacket = 6000, fileId = Some [1], node = ''n1''\<rparr> None True 103,
       SessionHuntDone \<lparr>lastPacket = 7000, fileId = Some [1], node = ''n1''\<rparr> None True 104,
       DbGetDone 0 (Found Running) 104,
       Page 3, ScanDone] \<and>
   written_counters (runHuntJob
      \<lparr>status = Running, lastUpdated = 100, totalSessions = 3, searchedSessions = 0,
        matchedSessions = 0, lastPacketTime = None, failedSessionIds = None, errors = None,
        hunt_unrunnable = False\<rparr>
      [Page 3,
       Iterator \<lparr>lastPacket = 5000, fileId = None, node = ''n1''\<rparr> 102,
       DbGetDone 0 (Found Running) 102,
       Iterator \<lparr>lastPacket = 6000, fileId = Some [1], node = ''n1''\<rparr> 102,
       Iterator \<lparr>lastPacket = 7000, fileId = Some [1], node = ''n1''\<rparr> 102,
       SessionHuntDone \<lparr>lastPacket = 6000, fileId = Some [1], node = ''n1''\<rparr> None True 103,
       SessionHuntDone \<lparr>lastPacket = 7000, fileId = Some [1], node = ''n1''\<rparr> None True 104,
       DbGetDone 0 (Found Running) 104,
       Page 3, ScanDone])
   = [(1, 3, 0), (3, 3, 2), (3, 3, 2)]"
  by (simp add: written_counters_def runHuntJob_def run_def step_def iterator_def
      getMoreUntilDone_def updateHuntStats_def updateHuntStats_cb_def sessionHunt_cb_def
      js_or_def endOfScan_def Let_def has_files_def)

section \<open>Properties of the authentication middleware\<close>

lemma s2sAuth_Next:
  assumes "s2sAuth conf w req tok = Next u"
  shows "\<exists>obj path. auth2obj w tok = Some obj \<and> tok_path obj = Some path \<and>
           js_replace (basePath conf) ''/'' path = url req \<and>
           (\<forall>d. tok_date obj = Some d \<longrightarrow> \<bar>now_ms w - d\<bar> \<le> 120000)"
  using assms by (auto simp: s2sAuth_def split: option.splits if_splits)

text \<open>
  Claim C2, as stated, is about every request that carries the header
  \<^verbatim>\<open>x-moloch-auth\<close>. A request for \<^verbatim>\<open>/eshealth.json\<close> is passed on before the header is
  looked at: here with a token for another path that is 1000 seconds old.
\<close>

theorem peer_token_not_checked_on_eshealth:
  "passwordSecretAuth
      \<lparr>basePath = ''/'', hostName = ''viewer1'', userNameHeader = None, requiredAuthHeader = None,
        requiredAuthHeaderVal = None, userAutoCreateTmpl = None\<rparr>
      \<lparr>now_ms = 1000000, auth2obj = (\<lambda>t. Some \<lparr>tok_date = Some 0, tok_user = ''admin'', tok_path = Some ''/sessions.json''\<rparr>),
        getUserCache = (\<lambda>n. LookupMissing), getUserCacheCreated = (\<lambda>n. LookupMissing), tmplUser = False,
        digestUserid = None, digestMatches = False\<rparr>
      \<lparr>url = ''/eshealth.json'', headers = [(''x-moloch-auth'', ''tok'')]\<rparr> = Next None \<and>
   js_replace ''/'' ''/'' ''/sessions.json'' \<noteq> ''/eshealth.json'' \<and>
   \<bar>1000000 - (0::int)\<bar> > 120000"
  by (simp add: passwordSecretAuth_def no_auth_url_def startsWith_def dot_json_def)

text \<open>
  Claim C2, amended. For every request that carries a non-empty header
  \<^verbatim>\<open>x-moloch-auth\<close> and whose URL does not match
  \<^verbatim>\<open>/^\/(parliament|eshealth).json/\<close>: if the middleware passes the request on, then the
  token decoded, its path after the replacement of the base path equals the request
  URL, and, when the token's date is a number, the server's clock and this date differ
  by at most 120000 milliseconds. Nothing is said here of a token whose date is absent
  or not a number.
\<close>

theorem peer_token_checked:
  assumes "passwordSecretAuth conf w req = Next u"
    and "header req ''x-moloch-auth'' = Some tok" and "tok \<noteq> []"
    and "\<not> no_auth_url (url req)"
  shows "\<exists>obj path. auth2obj w tok = Some obj \<and> tok_path obj = Some path \<and>
           js_replace (basePath conf) ''/'' path = url req \<and>
           (\<forall>d. tok_date obj = Some d \<longrightarrow> \<bar>now_ms w - d\<bar> \<le> 120000)"
proof -
  obtain c cs where h: "tok = c # cs" using assms(3) by (cases tok) auto
  have "s2sAuth conf w req tok = Next u"
    using assms(1,2,4) h by (auto simp: passwordSecretAuth_def split: if_splits)
  then show ?thesis by (rule s2sAuth_Next)
qed

theorem peer_token_checked_witness:
  "passwordSecretAuth
      \<lparr>basePath = ''/moloch/'', hostName = ''viewer1'', userNameHeader = None, requiredAuthHeader = None,
        requiredAuthHeaderVal = None, userAutoCreateTmpl = None\<rparr>
      \<lparr>now_ms = 1000500, auth2obj = (\<lambda>t. Some \<lparr>tok_date = Some 1000000, tok_user = ''admin'', tok_path = Some ''/moloch/sessions.json''\<rparr>),
        getUserCache = (\<lambda>n. LookupFound \<lparr>userId = n, truthy = [''enabled''], expression = None\<rparr>), getUserCacheCreated = (\<lambda>n. LookupMissing), tmplUser = False,
        digestUserid = None, digestMatches = False\<rparr>
      \<lparr>url = ''/sessions.json'', headers = [(''x-moloch-auth'', ''tok'')]\<rparr>
    = Next (Some \<lparr>userId = ''admin'', truthy = [''enabled''], expression = None\<rparr>) \<and>
   header \<lparr>url = ''/sessions.json'', headers = [(''x-moloch-auth'', ''tok'')]\<rparr> ''x-moloch-auth'' = Some ''tok'' \<and>
   \<not> no_auth_url ''/sessions.json'' \<and>
   js_replace ''/moloch/'' ''/'' ''/moloch/sessions.json'' = ''/sessions.json'' \<and>
   \<bar>1000500 - (1000000::int)\<bar> \<le> 120000"
proof -
  have a: "passwordSecretAuth
      \<lparr>basePath = ''/moloch/'', hostName = ''viewer1'', userNameHeader = None, requiredAuthHeader = None,
        requiredAuthHeaderVal = None, userAutoCreateTmpl = None\<rparr>
      \<lparr>now_ms = 1000500, auth2obj = (\<lambda>t. Some \<lparr>tok_date = Some 1000000, tok_user = ''admin'', tok_path = Some ''/moloch/sessions.json''\<rparr>),
        getUserCache = (\<lambda>n. LookupFound \<lparr>userId = n, truthy = [''enabled''], expression = None\<rparr>), getUserCacheCreated = (\<lambda>n. LookupMissing), tmplUser = False,
        digestUserid = None, digestMatches = False\<rparr>
      \<lparr>url = ''/sessions.json'', headers = [(''x-moloch-auth'', ''tok'')]\<rparr>
    = Next (Some \<lparr>userId = ''admin'', truthy = [''enabled''], expression = None\<rparr>)"
    by (simp add: passwordSecretAuth_def s2sAuth_def header_def no_auth_url_def startsWith_def dot_json_def receive_url_def has_def res_send_def res_end_def molochError_def headerAuth_def digestAuth_def ucb_def)
  have b: "header \<lparr>url = ''/sessions.json'', headers = [(''x-moloch-auth'', ''tok'')]\<rparr> ''x-moloch-auth'' = Some ''tok''"
    by (simp add: header_def)
  have c: "\<not> no_auth_url (url \<lparr>url = ''/sessions.json'', headers = [(''x-moloch-auth'', ''tok'')]\<rparr>)"
    by (simp add: no_auth_url_def startsWith_def)
  from peer_token_checked [OF a b _ c] a b c show ?thesis by simp
qed

text \<open>
  The other direction: a token whose path differs, or whose date is a number more than
  120000 milliseconds away, is answered by the middleware itself and not passed on.
\<close>

lemma peer_token_rejected:
  assumes "header req ''x-moloch-auth'' = Some tok" and "tok \<noteq> []"
    and "\<not> no_auth_url (url req)" and "url req \<noteq> ''/_ns_/nstest.html''"
    and "auth2obj w tok = Some obj" and "tok_path obj = Some path"
    and "js_replace (basePath conf) ''/'' path \<noteq> url req \<or>
         (\<exists>d. tok_date obj = Some d \<and> \<bar>now_ms w - d\<bar> > 120000)"
  shows "\<exists>text. passwordSecretAuth conf w req = Respond (res_send text)"
proof -
  obtain c cs where h: "tok = c # cs" using assms(2) by (cases tok) auto
  show ?thesis using assms h by (auto simp: passwordSecretAuth_def s2sAuth_def)
qed

text \<open>
  A token without a date passes the timestamp test at any time, because the difference
  is NaN and \<^verbatim>\<open>NaN > 120000\<close> is false: here the user is looked up and the request is
  passed on.
\<close>

lemma peer_token_without_date_passes:
  "passwordSecretAuth
      \<lparr>basePath = ''/'', hostName = ''viewer1'', userNameHeader = None, requiredAuthHeader = None,
        requiredAuthHeaderVal = None, userAutoCreateTmpl = None\<rparr>
      \<lparr>now_ms = 1000000, auth2obj = (\<lambda>t. Some \<lparr>tok_date = None, tok_user = ''admin'', tok_path = Some ''/sessions.json''\<rparr>),
        getUserCache = (\<lambda>n. LookupFound \<lparr>userId = n, truthy = [''enabled''], expression = None\<rparr>), getUserCacheCreated = (\<lambda>n. LookupMissing), tmplUser = False,
        digestUserid = None, digestMatches = False\<rparr>
      \<lparr>url = ''/sessions.json'', headers = [(''x-moloch-auth'', ''tok'')]\<rparr>
    = Next (Some \<lparr>userId = ''admin'', truthy = [''enabled''], expression = None\<rparr>)"
  by (simp add: passwordSecretAuth_def s2sAuth_def header_def no_auth_url_def startsWith_def dot_json_def receive_url_def has_def res_send_def res_end_def molochError_def headerAuth_def digestAuth_def ucb_def)









section \<open>Properties of the cron queries\<close>

text \<open>
  Claim C3, as stated, has the first filter of the scroll query range over
  \<^verbatim>\<open>lastPacket\<close>. The code ranges over \<^verbatim>\<open>timestamp\<close>: a query with \<^verbatim>\<open>lpValue\<close> 1000 and
  \<^verbatim>\<open>endTime\<close> 2000.
\<close>

theorem cron_slice_ranges_over_timestamp:
  "fst (processCronQuery
         \<lparr>enabled = True, creator = ''admin'', query = ''port == 80'', action = ''tag'',
           lpValue = 1000, count = None, notifier = None, lastNotified = None,
           lastNotifiedCount = None\<rparr>
         [EmptyFilter, Compiled ''port == 80''] 2000 [Hits 3, Hits 0])
    = [RangeFilter ''timestamp'' 1000000 2000000, Compiled ''port == 80''] \<and>
   RangeFilter ''timestamp'' 1000000 2000000 \<noteq> RangeFilter ''lastPacket'' 1000000 2000000"
  by (simp add: processCronQuery_def set_first_def)

text \<open>
  Claim C3, amended. For every slice processed by \<^verbatim>\<open>processCronQuery\<close>, the slice end is
  the minimum of \<^verbatim>\<open>endTime\<close> and \<^verbatim>\<open>lpValue + 86400\<close>, and the first filter of the scroll
  query is a range on the field \<^verbatim>\<open>timestamp\<close> from \<^verbatim>\<open>lpValue * 1000\<close> inclusive
  (\<^verbatim>\<open>gte\<close>) to the slice end times 1000 exclusive (\<^verbatim>\<open>lt\<close>); the other filters are kept.
\<close>

theorem cron_slice_range:
  "processCronQuery cq filters endTime pages =
     (RangeFilter ''timestamp'' (lpValue cq * 1000) (min endTime (lpValue cq + 86400) * 1000)
        # tl filters,
      drain pages 0,
      min endTime (lpValue cq + 86400))"
  by (cases filters) (auto simp: processCronQuery_def Let_def set_first_def)

lemma processCronQueries_Updated:
  assumes "processCronQueries nowSec cronTimeout lookup parse pages now cq = Updated fs d a"
  shows "enabled cq \<and> lpValue cq \<le> nowSec - cronTimeout \<and>
         doc_lpValue d = min (nowSec - cronTimeout) (lpValue cq + 86400)"
  using assms
  by (auto simp: processCronQueries_def processCronQuery_def cronUpdate_def Let_def
      split: if_splits user_lookup.splits option.splits list.splits)

text \<open>
  Claim C4, as stated, has the new \<^verbatim>\<open>lpValue\<close> strictly greater than the old one for
  every query that is run. A query is run when \<^verbatim>\<open>endTime < lpValue\<close> is false, so also
  when the two are equal; then the slice is empty and the update writes the old value
  back. Here the clock is 1060, \<^verbatim>\<open>cronTimeout\<close> is 60 and \<^verbatim>\<open>lpValue\<close> is 1000.
\<close>

theorem cron_lpValue_unchanged_at_the_horizon:
  "processCronQueries 1060 60
     (LookupFound \<lparr>userId = ''admin'', truthy = [''enabled''], expression = None\<rparr>)
     (\<lambda>e. Some e) [Hits 0] 1061
     \<lparr>enabled = True, creator = ''admin'', query = ''port == 80'', action = ''tag'',
       lpValue = 1000, count = None, notifier = None, lastNotified = None,
       lastNotifiedCount = None\<rparr>
   = Updated [RangeFilter ''timestamp'' 1000000 1000000, Compiled ''port == 80'']
       \<lparr>doc_lpValue = 1000, doc_lastRun = 1061, doc_count = 0, doc_lastNotifiedCount = None\<rparr>
       None"
  by (simp add: processCronQueries_def processCronQuery_def cronUpdate_def set_first_def
      has_def opt_or0_def)

text \<open>
  Claim C4, amended. For every cron query that \<^verbatim>\<open>processCronQueries\<close> runs and updates,
  the new \<^verbatim>\<open>lpValue\<close> is at least the old one and at most the clock minus
  \<^verbatim>\<open>cronTimeout\<close>, and it is strictly greater than the old one exactly when the old
  one was below the clock minus \<^verbatim>\<open>cronTimeout\<close>.
\<close>

theorem cron_lpValue_advances:
  assumes "processCronQueries nowSec cronTimeout lookup parse pages now cq = Updated fs d a"
  shows "lpValue cq \<le> doc_lpValue d \<and> doc_lpValue d \<le> nowSec - cronTimeout \<and>
         (lpValue cq < doc_lpValue d) = (lpValue cq < nowSec - cronTimeout)"
  using processCronQueries_Updated [OF assms] by auto

theorem cron_lpValue_advances_witness:
  "processCronQueries 5000 60
     (LookupFound \<lparr>userId = ''admin'', truthy = [''enabled''], expression = None\<rparr>)
     (\<lambda>e. Some e) [Hits 3, Hits 0] 5001
     \<lparr>enabled = True, creator = ''admin'', query = ''port == 80'', action = ''tag'',
       lpValue = 1000, count = None, notifier = None, lastNotified = None,
       lastNotifiedCount = None\<rparr>
   = Updated [RangeFilter ''timestamp'' 1000000 4940000, Compiled ''port == 80'']
       \<lparr>doc_lpValue = 4940, doc_lastRun = 5001, doc_count = 3, doc_lastNotifiedCount = None\<rparr>
       None \<and>
   (1000::int) \<le> 4940 \<and> (4940::int) \<le> 5000 - 60 \<and>
   ((1000::int) < 4940) = ((1000::int) < 5000 - 60)"
proof -
  have a: "processCronQueries 5000 60
     (LookupFound \<lparr>userId = ''admin'', truthy = [''enabled''], expression = None\<rparr>)
     (\<lambda>e. Some e) [Hits 3, Hits 0] 5001
     \<lparr>enabled = True, creator = ''admin'', query = ''port == 80'', action = ''tag'',
       lpValue = 1000, count = None, notifier = None, lastNotified = None,
       lastNotifiedCount = None\<rparr>
   = Updated [RangeFilter ''timestamp'' 1000000 4940000, Compiled ''port == 80'']
       \<lparr>doc_lpValue = 4940, doc_lastRun = 5001, doc_count = 3, doc_lastNotifiedCount = None\<rparr>
       None"
    by (simp add: processCronQueries_def processCronQuery_def cronUpdate_def set_first_def
        has_def opt_or0_def)
  from cron_lpValue_advances [OF a] a show ?thesis by simp
qed

text \<open>
  Whenever an alert is fired, the number of new matches it reports is the total count
  of the update document, whatever the query's \<^verbatim>\<open>lastNotifiedCount\<close> is.
\<close>

lemma cron_alert_newMatchCount_is_total:
  "cronUpdate cq cnt lp now = (d, Some a) \<Longrightarrow>
   newMatchCount a = doc_count d \<and> totalCount a = doc_count d"
  by (auto simp: cronUpdate_def Let_def split: if_splits)








section \<open>Properties of the scrub\<close>

lemma length_repeated: "length (repeated s n) = n"
  by (simp add: repeated_def)

lemma repeated_add:
  "repeated s (i + n) = repeated s i @ map (\<lambda>k. s ! (k mod length s)) [i..<i + n]"
proof -
  have "[0..<i + n] = [0..<i] @ [i..<i + n]"
    by (rule upt_add_eq_append) simp
  then show ?thesis by (simp add: repeated_def)
qed

lemma repeated_chunk:
  assumes "length s dvd i" "n \<le> length s"
  shows "map (\<lambda>k. s ! (k mod length s)) [i..<i + n] = take n s"
proof (rule nth_equalityI)
  show "length (map (\<lambda>k. s ! (k mod length s)) [i..<i + n]) = length (take n s)"
    using assms by simp
next
  fix j assume "j < length (map (\<lambda>k. s ! (k mod length s)) [i..<i + n])"
  then have j: "j < n" by simp
  from assms(1) obtain k where k: "i = length s * k" ..
  have "(i + j) mod length s = j"
    using j assms(2) unfolding k by simp
  then show "map (\<lambda>k. s ! (k mod length s)) [i..<i + n] ! j = take n s ! j"
    using j by simp
qed

lemma length_str: "length str = 16"
  by (simp add: str_def)

text \<open>
  The write loop ends, and it leaves the string repeated over the whole buffer. The
  invariant: the first \<open>i\<close> bytes are written, and \<open>i\<close> is a multiple of 16 until the
  last, shorter write reaches 5000.
\<close>

lemma write_loop_inv:
  "length buf = 5000 \<Longrightarrow> i \<le> 5000 \<Longrightarrow> 16 dvd i \<or> i = 5000 \<Longrightarrow> take i buf = repeated str i \<Longrightarrow>
   write_loop buf i = Some (repeated str 5000)"
proof (induction buf i rule: write_loop.induct)
  case (1 buf i)
  show ?case
  proof (cases "i < 5000")
    case False
    with "1.prems" have i: "i = 5000" by simp
    have "write_loop buf i = Some buf" using False by (subst write_loop.simps) simp
    moreover have "buf = repeated str 5000" using "1.prems"(1,4) i by simp
    ultimately show ?thesis by simp
  next
    case True
    with "1.prems" have dvd: "16 dvd i" by auto
    define n where "n = min 16 (5000 - i)"
    define buf' where "buf' = take i buf @ take n str @ drop (i + n) buf"
    have bw: "Buffer_write buf str i = (buf', n)"
      using "1.prems" by (simp add: Buffer_write_def n_def buf'_def length_str Let_def)
    have n0: "n \<noteq> 0" using True by (simp add: n_def)
    have n16: "n \<le> 16" by (simp add: n_def)
    have in5: "i + n \<le> 5000" using True by (simp add: n_def)
    have len: "length buf' = 5000"
      using "1.prems"(1) True in5 n16 by (simp add: buf'_def length_str)
    have nxt: "16 dvd (i + n) \<or> i + n = 5000"
    proof (cases "5000 - i < 16")
      case True
      then show ?thesis using \<open>i < 5000\<close> by (simp add: n_def)
    next
      case False
      then show ?thesis using dvd by (simp add: n_def)
    qed
    have tk: "take (i + n) buf' = repeated str (i + n)"
    proof -
      have "take (i + n) buf' = take i buf @ take n str"
        using "1.prems"(1) True n16 in5 by (simp add: buf'_def length_str)
      also have "\<dots> = repeated str i @ take n str" using "1.prems" by simp
      also have "\<dots> = repeated str (i + n)"
        using repeated_chunk [of str i n] dvd n16 by (simp add: repeated_add length_str)
      finally show ?thesis .
    qed
    have "write_loop buf' (i + n) = Some (repeated str 5000)"
      using "1.IH" [OF True bw [symmetric] n0 len in5 nxt tk] .
    moreover have "write_loop buf i = write_loop buf' (i + n)"
      using True bw n0 by (subst write_loop.simps) simp
    ultimately show ?thesis by simp
  qed
qed

lemma scrubbingBuffers_eq:
  "scrubbingBuffers =
     Some [replicate 5000 (CHR 0x00), replicate 5000 (CHR 0x01), repeated str 5000]"
proof -
  have "write_loop (Buffer_alloc 5000) 0 = Some (repeated str 5000)"
    by (rule write_loop_inv) (simp_all add: Buffer_alloc_def repeated_def)
  then show ?thesis
    by (simp add: scrubbingBuffers_def fill_def Buffer_alloc_def)
qed

text \<open>
  Claim C7. For every packet that \<^verbatim>\<open>pcapScrub\<close> scrubs (\<^verbatim>\<open>whatToRemove\<close> is not
  \<^verbatim>\<open>'spi'\<close>, the packet read is longer than 16 bytes, and neither the decode nor a
  write throws), exactly three overwrite passes are made at the packet's position, in
  this order: with a buffer of 5000 bytes 0x00, with a buffer of 5000 bytes 0x01, and
  with a buffer of 5000 bytes that repeats the string "Scrubbed! Hoot! ". Each pass
  covers the payload, and covers the 16-byte record header if and only if
  \<^verbatim>\<open>whatToRemove\<close> is \<^verbatim>\<open>'all'\<close>. Then \<^verbatim>\<open>nextCb\<close> is called.
\<close>

theorem scrub_three_passes:
  assumes "16 < len" and "whatToRemove \<noteq> ''spi''"
  shows "pcapScrub_packet whatToRemove pos (Some len) None =
     Some ([\<lparr>pass_pos = pos, pass_fill = replicate 5000 (CHR 0x00), pass_payload = True,
              pass_header = (whatToRemove = ''all'')\<rparr>,
            \<lparr>pass_pos = pos, pass_fill = replicate 5000 (CHR 0x01), pass_payload = True,
              pass_header = (whatToRemove = ''all'')\<rparr>,
            \<lparr>pass_pos = pos, pass_fill = repeated ''Scrubbed! Hoot! '' 5000, pass_payload = True,
              pass_header = (whatToRemove = ''all'')\<rparr>], True)"
  using assms
  by (simp add: pcapScrub_packet_def scrubbingBuffers_eq processFile_def try_scrub_def
      scrubPacket_def str_def)

theorem scrub_three_passes_witness:
  "(16::nat) < 60 \<and> ''pcap'' \<noteq> ''spi'' \<and>
   pcapScrub_packet ''pcap'' 24 (Some 60) None =
     Some ([\<lparr>pass_pos = 24, pass_fill = replicate 5000 (CHR 0x00), pass_payload = True,
              pass_header = False\<rparr>,
            \<lparr>pass_pos = 24, pass_fill = replicate 5000 (CHR 0x01), pass_payload = True,
              pass_header = False\<rparr>,
            \<lparr>pass_pos = 24, pass_fill = repeated ''Scrubbed! Hoot! '' 5000, pass_payload = True,
              pass_header = False\<rparr>], True)"
  using scrub_three_passes [of 60 "''pcap''" 24] by simp

section \<open>Properties of the expiry\<close>

lemma forEachSeries_result:
  "forEachSeries low deleteErr t del items = (del', t') \<Longrightarrow>
   \<exists>k \<le> length items. del' = del @ take k items \<and> t' = t - int k \<and> (0 < k \<longrightarrow> 10 \<le> t')"
proof (induction items arbitrary: t del)
  case Nil
  then show ?case by simp
next
  case (Cons item items)
  show ?case
  proof (cases "t \<le> 10 \<or> \<not> low del item")
    case True
    with Cons.prems have "del' = del \<and> t' = t" by (auto split: if_splits)
    then show ?thesis by (intro exI [of _ 0]) simp
  next
    case False
    show ?thesis
    proof (cases "deleteErr item")
      case True
      with False Cons.prems have "del' = del @ [item] \<and> t' = t - 1" by (auto split: if_splits)
      with False show ?thesis by (intro exI [of _ 1]) simp
    next
      case de: False
      with False Cons.prems
      have "forEachSeries low deleteErr (t - 1) (del @ [item]) items = (del', t')"
        by (auto split: if_splits)
      from Cons.IH [OF this] obtain k where
        k: "k \<le> length items" "del' = (del @ [item]) @ take k items" "t' = t - 1 - int k"
           "0 < k \<longrightarrow> 10 \<le> t'" by blast
      with False show ?thesis by (intro exI [of _ "Suc k"]) auto
    qed
  qed
qed

lemma search_files_hits:
  "set (snd (search_files nodes dirs index)) \<subseteq> {f \<in> set index. query_matches nodes dirs f}"
  by (auto simp: search_files_def Let_def dest: in_set_takeD)

lemma search_files_sorted:
  "sorted (map file_first (snd (search_files nodes dirs index)))"
  by (simp add: search_files_def Let_def flip: take_map)

text \<open>
  Claim C8, as stated, has the deletion stop before the count of matching files drops
  to 10 or below. With 11 matching files and too little free space the oldest file is
  deleted and the count drops to 10.
\<close>

theorem expire_leaves_ten_files:
  "expireDevice (\<lambda>deleted item. True) (\<lambda>item. False) False [''n1''] [''/data'']
     (map (\<lambda>i. \<lparr>file_id = replicate (Suc i) (CHR ''f''), file_num = int i,
                 file_name = ''/data/moloch.pcap'', file_first = int i, file_node = ''n1'',
                 locked = None\<rparr>) [0..<11])
   = ([\<lparr>file_id = ''f'', file_num = 0, file_name = ''/data/moloch.pcap'', file_first = 0,
        file_node = ''n1'', locked = None\<rparr>], 10)"
  by code_simp

text \<open>
  Claim C8, amended. For every run of \<^verbatim>\<open>expireDevice\<close>: no file whose index record has
  \<^verbatim>\<open>locked = 1\<close> is deleted; the deleted files are the first ones of the matching files
  in ascending order of \<^verbatim>\<open>first\<close>, oldest first; the count goes down by one with each
  deletion, and a file is deleted only while the count is above 10, so after any
  deletion at least 10 matching files are left.
\<close>

theorem expire_safety:
  assumes "expireDevice low deleteErr searchErr nodes dirs index = (deleted, remaining)"
  shows "(\<forall>f \<in> set deleted. locked f \<noteq> Some 1 \<and> f \<in> set index) \<and>
         deleted = take (length deleted) (snd (search_files nodes dirs index)) \<and>
         sorted (map file_first (snd (search_files nodes dirs index))) \<and>
         remaining = fst (search_files nodes dirs index) - int (length deleted) \<and>
         (deleted \<noteq> [] \<longrightarrow> 10 \<le> remaining)"
proof -
  obtain t hits where sf: "search_files nodes dirs index = (t, hits)"
    by (cases "search_files nodes dirs index")
  have "\<exists>k \<le> length hits. deleted = take k hits \<and> remaining = t - int k \<and>
          (0 < k \<longrightarrow> 10 \<le> remaining)"
  proof (cases "searchErr \<or> t \<le> 10")
    case True
    with assms sf have "deleted = [] \<and> remaining = t" by (auto simp: expireDevice_def)
    then show ?thesis by (intro exI [of _ 0]) simp
  next
    case False
    with assms sf have "forEachSeries low deleteErr t [] hits = (deleted, remaining)"
      by (auto simp: expireDevice_def)
    from forEachSeries_result [OF this] show ?thesis by simp
  qed
  then obtain k where k: "k \<le> length hits" "deleted = take k hits" "remaining = t - int k"
     "0 < k \<longrightarrow> 10 \<le> remaining" by blast
  have sub: "set deleted \<subseteq> set hits" using k by (auto dest: in_set_takeD)
  have "set hits \<subseteq> {f \<in> set index. query_matches nodes dirs f}"
    using search_files_hits [of nodes dirs index] sf by simp
  with sub have a: "\<forall>f \<in> set deleted. locked f \<noteq> Some 1 \<and> f \<in> set index"
    by (auto simp: query_matches_def)
  have len: "length deleted = k" using k by simp
  show ?thesis using a k len sf search_files_sorted [of nodes dirs index] by auto
qed

theorem expire_safety_witness:
  "expireDevice (\<lambda>deleted item. True) (\<lambda>item. False) False [''n1''] [''/data'']
     (\<lparr>file_id = ''locked'', file_num = 0, file_name = ''/data/moloch.pcap'', file_first = 0,
        file_node = ''n1'', locked = Some 1\<rparr> #
      map (\<lambda>i. \<lparr>file_id = replicate i (CHR ''f''), file_num = int i,
                 file_name = ''/data/moloch.pcap'', file_first = int i, file_node = ''n1'',
                 locked = None\<rparr>) [1..<13])
   = ([\<lparr>file_id = ''f'', file_num = 1, file_name = ''/data/moloch.pcap'', file_first = 1,
         file_node = ''n1'', locked = None\<rparr>,
       \<lparr>file_id = ''ff'', file_num = 2, file_name = ''/data/moloch.pcap'', file_first = 2,
         file_node = ''n1'', locked = None\<rparr>], 10) \<and>
   locked \<lparr>file_id = ''f'', file_num = 1, file_name = ''/data/moloch.pcap'',
            file_first = 1, file_node = ''n1'', locked = None\<rparr> \<noteq> Some 1 \<and>
   locked \<lparr>file_id = ''ff'', file_num = 2, file_name = ''/data/moloch.pcap'',
            file_first = 2, file_node = ''n1'', locked = None\<rparr> \<noteq> Some 1 \<and>
   (10::int) \<le> 10"
proof -
  have a: "expireDevice (\<lambda>deleted item. True) (\<lambda>item. False) False [''n1''] [''/data'']
     (\<lparr>file_id = ''locked'', file_num = 0, file_name = ''/data/moloch.pcap'', file_first = 0,
        file_node = ''n1'', locked = Some 1\<rparr> #
      map (\<lambda>i. \<lparr>file_id = replicate i (CHR ''f''), file_num = int i,
                 file_name = ''/data/moloch.pcap'', file_first = int i, file_node = ''n1'',
                 locked = None\<rparr>) [1..<13])
   = ([\<lparr>file_id = ''f'', file_num = 1, file_name = ''/data/moloch.pcap'', file_first = 1,
         file_node = ''n1'', locked = None\<rparr>,
       \<lparr>file_id = ''ff'', file_num = 2, file_name = ''/data/moloch.pcap'', file_first = 2,
         file_node = ''n1'', locked = None\<rparr>], 10)"
    by code_simp
  have b: "\<forall>f \<in> set [\<lparr>file_id = ''f'', file_num = 1, file_name = ''/data/moloch.pcap'',
                    file_first = 1, file_node = ''n1'', locked = None\<rparr>,
                  \<lparr>file_id = ''ff'', file_num = 2, file_name = ''/data/moloch.pcap'',
                    file_first = 2, file_node = ''n1'', locked = None\<rparr>].
      locked f \<noteq> Some 1"
    using expire_safety [OF a, THEN conjunct1] by blast
  from a b show ?thesis by simp
qed

end
